theory Spec2Isabelle
  imports Complex_Main "HOL-Library.Word"
begin

unbundle bit_operations_syntax

section \<open>The chaos-game worker (worker\_v3.js): data model\<close>

text \<open>
  The worker keeps one global \<open>state\<close> object and two module variables
  (\<open>offscreenCanvas\<close>, \<open>ctx\<close>); every function reads and mutates them.  The
  embedding passes the state explicitly.  JavaScript numbers are modelled by the number
  they denote: coordinates, angles and the moving average as \<open>real\<close>, counters and
  indices as \<open>nat\<close> or \<open>int\<close>.  \<open>undefined\<close> and \<open>NaN\<close> are \<open>None\<close>
  where the code can produce them, and an uncaught \<open>TypeError\<close> is the value
  \<open>Inl TypeError\<close>.  \<open>Math.random()\<close> is an injected sequence of draws
  \<open>rnd :: nat \<Rightarrow> real\<close>; the state counts how many draws were consumed.
\<close>

datatype error = TypeError

text \<open>
  \<open>settings.restriction\<close> is a string; the code compares it with five literals, and
  every other string (\<open>'none'\<close> included) takes the remaining branch: \<open>RNone\<close>.
\<close>

datatype restriction =
  RNone | NoRepeat | NoDoubleRepeat | NoReturn | NoNeighbor | NoNeighborAfterRepeat

record point =
  px :: real
  py :: real

text \<open>A colour \<open>{r, g, b}\<close>; a component is \<open>None\<close> when it is \<open>undefined\<close>.\<close>

record rgb =
  cr :: "nat option"
  cg :: "nat option"
  cb :: "nat option"

record settings =
  canvasSize :: nat
  sides :: int
  jumpDistance :: real
  padding :: real
  midpointVertex :: bool
  centerVertex :: bool
  symmetrical :: bool
  autoStop :: bool
  liveRendering :: bool
  solidBg :: bool
  restriction :: restriction
  gammaExponent :: real
  stabilityNewPixelsThreshold :: "real option"
  fgColor :: string
  bgColor :: string
  drawCircle :: bool
  drawPolygon :: bool

text \<open>
  The state object.  \<open>imageMatrix\<close> (a \<open>Float32Array\<close> of hit counts) and
  \<open>pixelData\<close> (a \<open>Uint32Array\<close>) are \<open>null\<close> until \<open>setup\<close> allocates them.
  \<open>fgRGB\<close> and \<open>bgRGB\<close> are \<open>state.fgColor\<close> and \<open>state.bgColor\<close> (the parsed
  colours; the strings live in the settings).  \<open>offscreenCanvas\<close> holds the width of
  the canvas when one was received, \<open>ctx\<close> says whether its 2d context is not null.
  The timing fields (\<open>runTime\<close>, \<open>animationFrameId\<close>, \<open>lastUpdateTime\<close>) are left out.
\<close>

record state =
  settings :: settings
  vertices :: "point list"
  mainVertices :: "point list"
  currentPoint :: point
  center :: point
  radius :: real
  imageMatrix :: "nat list option"
  allowedMoves :: "nat list list"
  pixelData :: "32 word list option"
  maxValue :: nat
  prevIndex :: "nat list"
  bgRGB :: rgb
  fgRGB :: rgb
  cosAngles :: "real list"
  sinAngles :: "real list"
  iterations :: nat
  stabilityCounter :: nat
  newPixelsSinceLastCheck :: nat
  newPixelsEma :: real
  filledPixels :: nat
  isRunning :: bool
  offscreenCanvas :: "nat option"
  ctx :: bool
  drawn :: nat

definition DEFAULT_BURN_IN_COUNT :: nat where
  "DEFAULT_BURN_IN_COUNT = 300"

definition STABILITY_WINDOW :: nat where
  "STABILITY_WINDOW = 10"

definition EMA_ALPHA :: real where
  "EMA_ALPHA = 2 / 10"

section \<open>Helper functions\<close>

text \<open>\<open>Math.round\<close>: the nearest integer, a tie going up.\<close>

definition js_round :: "real \<Rightarrow> int" where
  "js_round v = \<lfloor>v + 1 / 2\<rfloor>"

text \<open>\<open>Math.floor(Math.random() * n)\<close> for the draw \<open>u\<close>.\<close>

definition randomIndex :: "real \<Rightarrow> nat \<Rightarrow> nat" where
  "randomIndex u n = nat \<lfloor>u * real n\<rfloor>"

subsection \<open>colorToRGB\<close>

text \<open>The code unit of a character.\<close>

definition charCode :: "char \<Rightarrow> nat" where
  "charCode c = of_char c"

definition isDigit :: "char \<Rightarrow> bool" where
  "isDigit c = (48 \<le> charCode c \<and> charCode c \<le> 57)"

definition hexDigit :: "char \<Rightarrow> nat option" where
  "hexDigit c =
     (if 48 \<le> charCode c \<and> charCode c \<le> 57 then Some (charCode c - 48)
      else if 97 \<le> charCode c \<and> charCode c \<le> 102 then Some (charCode c - 87)
      else if 65 \<le> charCode c \<and> charCode c \<le> 70 then Some (charCode c - 55)
      else None)"

text \<open>
  The white space \<open>parseInt\<close> skips.  A string here is a list of code units below
  256; among those, the white space and line terminators of the language are the
  characters 9 to 13, the space and the no-break space U+00A0.
\<close>

definition isWhite :: "char \<Rightarrow> bool" where
  "isWhite c = (charCode c \<in> {9, 10, 11, 12, 13, 32, 160})"

definition digitsValue :: "nat \<Rightarrow> nat list \<Rightarrow> nat" where
  "digitsValue base ds = foldl (\<lambda>a d. base * a + d) 0 ds"

text \<open>
  \<open>parseInt(str, 16)\<close>: leading white space, a sign and a \<open>0x\<close> prefix are skipped,
  the longest run of hexadecimal digits is read, and no digit at all gives \<open>NaN\<close>
  (\<open>None\<close>).
\<close>

definition parseInt16 :: "string \<Rightarrow> int option" where
  "parseInt16 str =
     (let s1 = dropWhile isWhite str;
          neg = (s1 \<noteq> [] \<and> hd s1 = CHR ''-'');
          s2 = (if s1 \<noteq> [] \<and> (hd s1 = CHR ''-'' \<or> hd s1 = CHR ''+'') then tl s1 else s1);
          s3 = (case s2 of
                  a # b # rest \<Rightarrow>
                    if a = CHR ''0'' \<and> (b = CHR ''x'' \<or> b = CHR ''X'') then rest else s2
                | _ \<Rightarrow> s2);
          ds = takeWhile (\<lambda>c. hexDigit c \<noteq> None) s3
      in if ds = [] then None
         else Some ((if neg then - 1 else 1) * int (digitsValue 16 (map (\<lambda>c. the (hexDigit c)) ds))))"

text \<open>\<open>color.match(/\d+/g)\<close>: the maximal runs of decimal digits, left to right.\<close>

fun digitRuns :: "string \<Rightarrow> string \<Rightarrow> string list" where
  "digitRuns [] cur = (if cur = [] then [] else [cur])"
| "digitRuns (c # cs) cur =
     (if isDigit c then digitRuns cs (cur @ [c])
      else if cur = [] then digitRuns cs []
      else cur # digitRuns cs [])"

definition nthOpt :: "'a list \<Rightarrow> nat \<Rightarrow> 'a option" where
  "nthOpt xs i = (if i < length xs then Some (xs ! i) else None)"

text \<open>
  The byte \<open>(num >> s) & 0xff\<close> of the parsed number; \<open>NaN\<close> converts to 0.  The
  number has at most six hexadecimal digits, so the 32-bit conversion does not wrap,
  and the arithmetic shift of a negative number is the division rounding down.
\<close>

definition byteOf :: "int option \<Rightarrow> nat \<Rightarrow> nat" where
  "byteOf num s = (case num of None \<Rightarrow> 0 | Some n \<Rightarrow> nat ((n div 2 ^ s) mod 256))"

definition colorToRGB :: "string \<Rightarrow> rgb" where
  "colorToRGB color =
     (if color \<noteq> [] \<and> hd color = CHR ''#'' then
        (let hex = tl color;
             hex2 = (if length hex = 3 \<or> length hex = 4
                     then concat (map (\<lambda>ch. [ch, ch]) hex) else hex);
             num = parseInt16 (take 6 hex2)
         in \<lparr>cr = Some (byteOf num 16), cg = Some (byteOf num 8), cb = Some (byteOf num 0)\<rparr>)
      else
        (let rgbs = map (\<lambda>m. digitsValue 10 (map (\<lambda>c. charCode c - 48) m)) (digitRuns color [])
         in if rgbs \<noteq> [] then \<lparr>cr = nthOpt rgbs 0, cg = nthOpt rgbs 1, cb = nthOpt rgbs 2\<rparr>
            else \<lparr>cr = Some 0, cg = Some 0, cb = Some 0\<rparr>))"

definition lerp :: "real \<Rightarrow> real \<Rightarrow> real \<Rightarrow> int" where
  "lerp a b t = js_round (a + t * (b - a))"

text \<open>
  A colour component as the operand of \<open><<\<close> or \<open>|\<close>: the 32-bit conversion, which
  sends \<open>undefined\<close> to 0.
\<close>

definition toInt32 :: "nat option \<Rightarrow> 32 word" where
  "toInt32 c = (case c of None \<Rightarrow> 0 | Some n \<Rightarrow> of_nat n)"

text \<open>\<open>lerp\<close> of two colour components; \<open>undefined\<close> makes it \<open>NaN\<close>, which converts to 0.\<close>

definition lerpChannel :: "nat option \<Rightarrow> nat option \<Rightarrow> real \<Rightarrow> 32 word" where
  "lerpChannel a b t =
     (case a of None \<Rightarrow> 0
      | Some x \<Rightarrow> (case b of None \<Rightarrow> 0 | Some y \<Rightarrow> of_int (lerp (real x) (real y) t)))"

definition pack32 :: "32 word \<Rightarrow> 32 word \<Rightarrow> 32 word \<Rightarrow> 32 word \<Rightarrow> 32 word" where
  "pack32 a b g r = push_bit 24 a OR push_bit 16 b OR push_bit 8 g OR r"

definition calculatePixelValue :: "state \<Rightarrow> real \<Rightarrow> 32 word" where
  "calculatePixelValue s val =
     (if \<not> solidBg (settings s) then
        pack32 (of_int (lerp 0 255 val)) (toInt32 (cb (fgRGB s))) (toInt32 (cg (fgRGB s)))
          (toInt32 (cr (fgRGB s)))
      else
        pack32 255 (lerpChannel (cb (bgRGB s)) (cb (fgRGB s)) val)
          (lerpChannel (cg (bgRGB s)) (cg (fgRGB s)) val)
          (lerpChannel (cr (bgRGB s)) (cr (fgRGB s)) val))"

text \<open>
  \<open>normalizeValue(rawValue, logMax)\<close>, with \<open>state.settings.gammaExponent\<close> read from
  the state.  \<open>**\<close> is \<open>powr\<close> on a positive base, and the base is positive for every
  \<open>rawValue > 0\<close>, which is all that \<open>updatePixelDataFromMatrix\<close> passes.
\<close>

definition normalizeValue :: "state \<Rightarrow> real \<Rightarrow> real \<Rightarrow> real" where
  "normalizeValue s rawValue logMax =
     (if logMax \<le> 0 then 0
      else (ln (1 + rawValue) / logMax) powr gammaExponent (settings s))"

section \<open>Core logic\<close>

subsection \<open>Geometry: preDraw\<close>

text \<open>
  The first loop of \<open>preDraw\<close>.  The code accumulates \<open>angle += 2 * Math.PI / sides\<close>
  from \<open>-Math.PI / 2\<close>; the value at iteration \<open>i\<close> is written in closed form.
\<close>

definition mainPolygon :: "settings \<Rightarrow> real \<Rightarrow> point \<Rightarrow> point list" where
  "mainPolygon st rad c =
     map (\<lambda>i. let angle = - pi / 2 + real i * (2 * pi / real_of_int (sides st))
              in \<lparr>px = cos angle * rad + px c, py = sin angle * rad + py c\<rparr>)
       [0..<nat (sides st)]"

definition rotationAngles :: "settings \<Rightarrow> real list" where
  "rotationAngles st = map (\<lambda>i. (2 * pi / real_of_int (sides st)) * real i) [0..<nat (sides st)]"

definition midpoints :: "settings \<Rightarrow> point list \<Rightarrow> point list" where
  "midpoints st vs =
     map (\<lambda>i. let i2 = (i + 1) mod nat (sides st)
              in \<lparr>px = (px (vs ! i) + px (vs ! i2)) / 2, py = (py (vs ! i) + py (vs ! i2)) / 2\<rparr>)
       [0..<length vs]"

text \<open>
  The loop \<open>state.vertices.splice(2 * i + 1, 0, midpoints[i])\<close>; \<open>splice\<close> clamps a
  start beyond the end to the end, as \<open>take\<close> and \<open>drop\<close> do.
\<close>

fun spliceMidpoints :: "point list \<Rightarrow> nat \<Rightarrow> point list \<Rightarrow> point list" where
  "spliceMidpoints [] i vs = vs"
| "spliceMidpoints (m # ms) i vs =
     spliceMidpoints ms (i + 1) (take (2 * i + 1) vs @ m # drop (2 * i + 1) vs)"

definition buildVertices :: "settings \<Rightarrow> real \<Rightarrow> point \<Rightarrow> point list" where
  "buildVertices st rad c =
     (let mains = mainPolygon st rad c;
          vs = (if midpointVertex st then spliceMidpoints (midpoints st mains) 0 mains else mains)
      in if centerVertex st then vs @ [c] else vs)"

subsection \<open>buildRestrictions\<close>

text \<open>
  The body of the loop of \<open>buildRestrictions\<close> for the vertex \<open>i\<close> of \<open>n\<close> vertices.
  \<open>left\<close> and \<open>right\<close> are used only when \<open>i < sides\<close>; then \<open>sides\<close> is positive and
  the dividends are not negative, so that \<open>%\<close> is \<open>mod\<close>.
\<close>

definition allowedFrom :: "settings \<Rightarrow> nat \<Rightarrow> nat \<Rightarrow> nat list" where
  "allowedFrom st n i =
     (let sides2 = (if midpointVertex st then sides st * 2 else sides st)
      in if restriction st \<in> {NoRepeat, NoDoubleRepeat, NoReturn} then
           filter (\<lambda>j. j \<noteq> i) [0..<n]
         else if restriction st \<in> {NoNeighbor, NoNeighborAfterRepeat} then
           (let left = (int i - 1 + sides2) mod sides2;
                right = (int i + 1) mod sides2
            in filter (\<lambda>j. int i \<ge> sides2 \<or> (int j \<noteq> left \<and> int j \<noteq> right)) [0..<n])
         else [0..<n])"

definition buildRestrictions :: "state \<Rightarrow> state" where
  "buildRestrictions s =
     s\<lparr>allowedMoves :=
         map (allowedFrom (settings s) (length (vertices s))) [0..<length (vertices s)]\<rparr>"

subsection \<open>The walk: getRandomPointInShape, updateCurrentPoint, burnIn\<close>

text \<open>
  \<open>getRandomPointInShape\<close> takes three draws.  An \<open>undefined\<close> \<open>v2\<close> (no main vertex
  at \<open>triangleIndex\<close>) raises at \<open>v2.x\<close>.
\<close>

definition getRandomPointInShape :: "(nat \<Rightarrow> real) \<Rightarrow> state \<Rightarrow> error + point" where
  "getRandomPointInShape rnd s =
     (let mv = mainVertices s;
          numberOfSides = length mv;
          triangleIndex = randomIndex (rnd (drawn s)) numberOfSides
      in if triangleIndex < numberOfSides then
           (let v1 = center s;
                v2 = mv ! triangleIndex;
                v3 = mv ! ((triangleIndex + 1) mod numberOfSides);
                r1 = rnd (drawn s + 1);
                r2 = rnd (drawn s + 2)
            in Inr \<lparr>px = (1 - sqrt r1) * px v1 + sqrt r1 * (1 - r2) * px v2 + sqrt r1 * r2 * px v3,
                    py = (1 - sqrt r1) * py v1 + sqrt r1 * (1 - r2) * py v2 + sqrt r1 * r2 * py v3\<rparr>)
         else Inl TypeError)"

text \<open>\<open>xs.at(-k)\<close> for \<open>k \<ge> 1\<close>: \<open>undefined\<close> when the list is shorter than \<open>k\<close>.\<close>

definition atBack :: "'a list \<Rightarrow> nat \<Rightarrow> 'a option" where
  "atBack xs k = (if 1 \<le> k \<and> k \<le> length xs then Some (xs ! (length xs - k)) else None)"

text \<open>
  The \<open>if\<close>/\<open>else\<close> of \<open>updateCurrentPoint\<close> that computes \<open>currentIndex\<close>.  Reading
  \<open>allowed.length\<close> of an \<open>undefined\<close> table entry raises; an \<open>undefined\<close>
  \<open>currentIndex\<close> raises a few lines later at \<open>randomVertex.x\<close>, and is reported here.
\<close>

definition chooseIndex :: "(nat \<Rightarrow> real) \<Rightarrow> state \<Rightarrow> error + nat" where
  "chooseIndex rnd s =
     (let st = settings s; prev = prevIndex s; u = rnd (drawn s)
      in if prev = [] \<or>
            (restriction st = NoReturn \<and> length prev < 2) \<or>
            (restriction st \<in> {NoNeighborAfterRepeat, NoDoubleRepeat} \<and>
               (length prev < 2 \<or> atBack prev 1 \<noteq> atBack prev 2))
         then Inr (randomIndex u (length (vertices s)))
         else
           (case atBack prev (if restriction st = NoReturn then 2 else 1) of
              None \<Rightarrow> Inl TypeError
            | Some i \<Rightarrow>
                (case nthOpt (allowedMoves s) i of
                   None \<Rightarrow> Inl TypeError
                 | Some allowed \<Rightarrow>
                     (case nthOpt allowed (randomIndex u (length allowed)) of
                        None \<Rightarrow> Inl TypeError
                      | Some c \<Rightarrow> Inr c))))"

definition pushHistory :: "nat list \<Rightarrow> nat \<Rightarrow> nat list" where
  "pushHistory prev c = (let p = prev @ [c] in if length p > 10 then tl p else p)"

definition updateCurrentPoint :: "(nat \<Rightarrow> real) \<Rightarrow> state \<Rightarrow> error + state" where
  "updateCurrentPoint rnd s =
     (case chooseIndex rnd s of
        Inl e \<Rightarrow> Inl e
      | Inr currentIndex \<Rightarrow>
          if currentIndex < length (vertices s) then
            (let randomVertex = vertices s ! currentIndex;
                 cp = currentPoint s;
                 jd = jumpDistance (settings s)
             in Inr (s\<lparr>prevIndex := pushHistory (prevIndex s) currentIndex,
                       currentPoint := \<lparr>px = px cp + (px randomVertex - px cp) * jd,
                                        py = py cp + (py randomVertex - py cp) * jd\<rparr>,
                       drawn := drawn s + 1\<rparr>))
          else Inl TypeError)"

fun burnInLoop :: "(nat \<Rightarrow> real) \<Rightarrow> nat \<Rightarrow> state \<Rightarrow> error + state" where
  "burnInLoop rnd 0 s = Inr s"
| "burnInLoop rnd (Suc n) s =
     (case updateCurrentPoint rnd s of Inl e \<Rightarrow> Inl e | Inr s' \<Rightarrow> burnInLoop rnd n s')"

definition burnIn :: "(nat \<Rightarrow> real) \<Rightarrow> state \<Rightarrow> error + state" where
  "burnIn rnd s = burnInLoop rnd DEFAULT_BURN_IN_COUNT s"

definition preDraw :: "(nat \<Rightarrow> real) \<Rightarrow> state \<Rightarrow> error + state" where
  "preDraw rnd s =
     (let st = settings s;
          mains = mainPolygon st (radius s) (center s);
          s1 = s\<lparr>vertices := buildVertices st (radius s) (center s),
                 cosAngles := map cos (rotationAngles st),
                 sinAngles := map sin (rotationAngles st),
                 mainVertices := mains\<rparr>;
          s2 = buildRestrictions s1
      in case getRandomPointInShape rnd s2 of
           Inl e \<Rightarrow> Inl e
         | Inr p \<Rightarrow> burnIn rnd (s2\<lparr>currentPoint := p, drawn := drawn s2 + 3\<rparr>))"

subsection \<open>The density accumulator: updateMatrix\<close>

definition rotatePoint :: "point \<Rightarrow> real \<Rightarrow> real \<Rightarrow> real \<Rightarrow> real \<Rightarrow> point" where
  "rotatePoint c x y cs sn =
     \<lparr>px = (x - px c) * cs - (y - py c) * sn + px c,
      py = (x - px c) * sn + (y - py c) * cs + py c\<rparr>"

text \<open>
  The list \<open>points\<close> of \<open>updateMatrix\<close>.  A rotation read beyond the end of
  \<open>cosAngles\<close> or \<open>sinAngles\<close> is \<open>undefined\<close> and makes both coordinates
  \<open>NaN\<close>: such a point is \<open>None\<close>.
\<close>

definition symmetryPoints :: "state \<Rightarrow> point option list" where
  "symmetryPoints s =
     (let cp = currentPoint s; c = center s
      in if symmetrical (settings s) then
           concat (map (\<lambda>i.
             case nthOpt (cosAngles s) i of
               None \<Rightarrow> [None, None]
             | Some cs \<Rightarrow>
                 (case nthOpt (sinAngles s) i of
                    None \<Rightarrow> [None, None]
                  | Some sn \<Rightarrow>
                      [Some (rotatePoint c (px cp) (py cp) cs sn),
                       Some (rotatePoint c (2 * px c - px cp) (py cp) cs sn)]))
             [0..<nat (sides (settings s))])
         else [Some cp])"

text \<open>
  A store into the \<open>Float32Array\<close> rounds to single precision.  The counts stored are
  integers reached by steps of one: every integer up to \<open>2^24\<close> is exact, and
  \<open>2^24 + 1\<close> rounds back to \<open>2^24\<close>.
\<close>

definition toFloat32 :: "nat \<Rightarrow> nat" where
  "toFloat32 v = (if v \<le> 16777216 then v else 16777216)"

text \<open>
  The body of the loop over \<open>points\<close>.  A typed array ignores a read or a write at
  an index that is not one of its elements (negative, beyond the end, \<open>NaN\<close>): the
  read gives \<open>undefined\<close>, which is neither \<open>=== 0\<close> nor, incremented, \<open>> maxValue\<close>.
  \<open>val\<close> is the incremented number before the store rounds it.
\<close>

definition plotPoint :: "point option \<Rightarrow> state \<Rightarrow> error + state" where
  "plotPoint pt s =
     (case imageMatrix s of
        None \<Rightarrow> Inl TypeError
      | Some m \<Rightarrow>
          (case pt of
             None \<Rightarrow> Inr s
           | Some p \<Rightarrow>
               (let x = js_round (px p);
                    y = js_round (py p);
                    index = y * int (canvasSize (settings s)) + x
                in if 0 \<le> index \<and> index < int (length m) then
                     (let k = nat index;
                          val = m ! k + 1
                      in Inr (s\<lparr>newPixelsSinceLastCheck :=
                                   (if m ! k = 0 then newPixelsSinceLastCheck s + 1
                                    else newPixelsSinceLastCheck s),
                                 imageMatrix := Some (m[k := toFloat32 val]),
                                 maxValue := (if val > maxValue s then val else maxValue s)\<rparr>))
                   else Inr s)))"

fun plotPoints :: "point option list \<Rightarrow> state \<Rightarrow> error + state" where
  "plotPoints [] s = Inr s"
| "plotPoints (p # ps) s =
     (case plotPoint p s of Inl e \<Rightarrow> Inl e | Inr s' \<Rightarrow> plotPoints ps s')"

definition updateMatrix :: "(nat \<Rightarrow> real) \<Rightarrow> state \<Rightarrow> error + state" where
  "updateMatrix rnd s =
     (case updateCurrentPoint rnd s of
        Inl e \<Rightarrow> Inl e
      | Inr s1 \<Rightarrow> plotPoints (symmetryPoints s1) s1)"

subsection \<open>The colour normalizer: updatePixelDataFromMatrix\<close>

text \<open>
  The loop over the cells of \<open>imageMatrix\<close>, \<open>i\<close> being the index of the head of
  the remaining cells.  A write beyond the end of \<open>pixelData\<close> is ignored, as
  \<open>list_update\<close> does.
\<close>

fun pixelLoop :: "state \<Rightarrow> real \<Rightarrow> nat list \<Rightarrow> nat \<Rightarrow> 32 word list \<Rightarrow> 32 word list" where
  "pixelLoop s logMax [] i pd = pd"
| "pixelLoop s logMax (v # vs) i pd =
     pixelLoop s logMax vs (i + 1)
       (if v > 0 then pd[i := calculatePixelValue s (normalizeValue s (real v) logMax)] else pd)"

definition updatePixelDataFromMatrix :: "state \<Rightarrow> error + state" where
  "updatePixelDataFromMatrix s =
     (case imageMatrix s of
        None \<Rightarrow> Inl TypeError
      | Some m \<Rightarrow>
          (case pixelData s of
             None \<Rightarrow> if list_ex (\<lambda>v. v > 0) m then Inl TypeError else Inr s
           | Some pd \<Rightarrow>
               Inr (s\<lparr>pixelData := Some (pixelLoop s (ln (1 + real (maxValue s))) m 0 pd)\<rparr>)))"

text \<open>
  \<open>prepareCanvasForOutput\<close> and \<open>renderFrame\<close>: of the two, only
  \<open>updatePixelDataFromMatrix\<close> changes the state; \<open>renderCanvas\<close>, \<open>drawLines\<close>,
  \<open>transferToImageBitmap\<close> and \<open>postMessage\<close> draw and send the pixel buffer.
\<close>

definition prepareCanvasForOutput :: "state \<Rightarrow> error + state" where
  "prepareCanvasForOutput s = updatePixelDataFromMatrix s"

definition renderFrame :: "state \<Rightarrow> error + state" where
  "renderFrame s = prepareCanvasForOutput s"

subsection \<open>erase and setup\<close>

definition bg32 :: "state \<Rightarrow> 32 word" where
  "bg32 s = pack32 255 (toInt32 (cb (bgRGB s))) (toInt32 (cg (bgRGB s))) (toInt32 (cr (bgRGB s)))"

definition backgroundFill :: "state \<Rightarrow> 32 word" where
  "backgroundFill s = (if \<not> solidBg (settings s) then 0 else bg32 s)"

definition erase :: "state \<Rightarrow> error + state" where
  "erase s =
     (if \<not> ctx s then Inr s
      else
        (case imageMatrix s of
           None \<Rightarrow> Inl TypeError
         | Some m \<Rightarrow>
             (let s1 = s\<lparr>imageMatrix := Some (replicate (length m) 0),
                         maxValue := 1,
                         prevIndex := [],
                         iterations := 0,
                         stabilityCounter := 0,
                         newPixelsSinceLastCheck := 0,
                         newPixelsEma := 0,
                         filledPixels := 0\<rparr>
              in case pixelData s1 of
                   None \<Rightarrow> Inl TypeError
                 | Some pd \<Rightarrow>
                     Inr (s1\<lparr>pixelData := Some (replicate (length pd) (backgroundFill s1))\<rparr>))))"

definition updateColors :: "state \<Rightarrow> state" where
  "updateColors s =
     s\<lparr>fgRGB := colorToRGB (fgColor (settings s)), bgRGB := colorToRGB (bgColor (settings s))\<rparr>"

text \<open>
  \<open>setup\<close> (\<open>setup_worker\<close> here, the name being taken).  Reading \<open>offscreenCanvas.width\<close> raises when no canvas was received.
  Both buffers are allocated with \<open>canvasSize ** 2\<close> zero cells.
\<close>

definition setup_worker :: "(nat \<Rightarrow> real) \<Rightarrow> settings \<Rightarrow> state \<Rightarrow> error + state" where
  "setup_worker rnd newSettings s =
     (let half = real (canvasSize newSettings) / 2;
          s1 = s\<lparr>settings := newSettings,
                 center := \<lparr>px = half, py = half\<rparr>,
                 radius := half - padding newSettings\<rparr>
      in case offscreenCanvas s1 of
           None \<Rightarrow> Inl TypeError
         | Some w \<Rightarrow>
             (let s2 = (if w \<noteq> canvasSize newSettings
                        then s1\<lparr>offscreenCanvas := Some (canvasSize newSettings)\<rparr> else s1);
                  size = canvasSize newSettings ^ 2;
                  s3 = s2\<lparr>imageMatrix := Some (replicate size 0),
                          pixelData := Some (replicate size 0)\<rparr>
              in case preDraw rnd (updateColors s3) of
                   Inl e \<Rightarrow> Inl e
                 | Inr s4 \<Rightarrow> erase s4))"

subsection \<open>The stability detector\<close>

text \<open>
  \<open>checkStability\<close> returns its boolean and the new state.  The threshold is
  \<open>settings.stabilityNewPixelsThreshold || 1.0\<close>: \<open>undefined\<close> (\<open>None\<close>) and 0 are
  falsy.  The \<open>stabilityCheck\<close> message it posts is not part of the state.
\<close>

definition checkStability :: "state \<Rightarrow> bool \<times> state" where
  "checkStability s =
     (let ema = EMA_ALPHA * real (newPixelsSinceLastCheck s) + (1 - EMA_ALPHA) * newPixelsEma s;
          s1 = s\<lparr>iterations := 0,
                 newPixelsEma := ema,
                 filledPixels := filledPixels s + newPixelsSinceLastCheck s,
                 newPixelsSinceLastCheck := 0\<rparr>;
          threshold = (case stabilityNewPixelsThreshold (settings s) of
                         None \<Rightarrow> 1
                       | Some t \<Rightarrow> if t = 0 then 1 else t)
      in if newPixelsEma s1 < threshold then
           (let s2 = s1\<lparr>stabilityCounter := stabilityCounter s1 + 1\<rparr>
            in if stabilityCounter s2 \<ge> STABILITY_WINDOW then (True, s2) else (False, s2))
         else (False, s1\<lparr>stabilityCounter := 0\<rparr>))"

subsection \<open>The message handler: updateSetting\<close>

text \<open>
  An \<open>updateSetting\<close> message carries a key and a value; a constructor is a key
  with a value of the type the setting has.
\<close>

datatype settingUpdate =
    SetCanvasSize nat
  | SetSides int
  | SetJumpDistance real
  | SetPadding real
  | SetMidpointVertex bool
  | SetCenterVertex bool
  | SetSymmetrical bool
  | SetAutoStop bool
  | SetLiveRendering bool
  | SetSolidBg bool
  | SetRestriction restriction
  | SetGammaExponent real
  | SetStabilityNewPixelsThreshold "real option"
  | SetFgColor string
  | SetBgColor string
  | SetDrawCircle bool
  | SetDrawPolygon bool

text \<open>\<open>state.settings[key] = value\<close>.\<close>

fun assignSetting :: "settingUpdate \<Rightarrow> settings \<Rightarrow> settings" where
  "assignSetting (SetCanvasSize v) st = st\<lparr>canvasSize := v\<rparr>"
| "assignSetting (SetSides v) st = st\<lparr>sides := v\<rparr>"
| "assignSetting (SetJumpDistance v) st = st\<lparr>jumpDistance := v\<rparr>"
| "assignSetting (SetPadding v) st = st\<lparr>padding := v\<rparr>"
| "assignSetting (SetMidpointVertex v) st = st\<lparr>midpointVertex := v\<rparr>"
| "assignSetting (SetCenterVertex v) st = st\<lparr>centerVertex := v\<rparr>"
| "assignSetting (SetSymmetrical v) st = st\<lparr>symmetrical := v\<rparr>"
| "assignSetting (SetAutoStop v) st = st\<lparr>autoStop := v\<rparr>"
| "assignSetting (SetLiveRendering v) st = st\<lparr>liveRendering := v\<rparr>"
| "assignSetting (SetSolidBg v) st = st\<lparr>solidBg := v\<rparr>"
| "assignSetting (SetRestriction v) st = st\<lparr>restriction := v\<rparr>"
| "assignSetting (SetGammaExponent v) st = st\<lparr>gammaExponent := v\<rparr>"
| "assignSetting (SetStabilityNewPixelsThreshold v) st = st\<lparr>stabilityNewPixelsThreshold := v\<rparr>"
| "assignSetting (SetFgColor v) st = st\<lparr>fgColor := v\<rparr>"
| "assignSetting (SetBgColor v) st = st\<lparr>bgColor := v\<rparr>"
| "assignSetting (SetDrawCircle v) st = st\<lparr>drawCircle := v\<rparr>"
| "assignSetting (SetDrawPolygon v) st = st\<lparr>drawPolygon := v\<rparr>"

text \<open>\<open>['bgColor', 'fgColor', 'solidBg'].includes(key)\<close>.\<close>

fun isColorKey :: "settingUpdate \<Rightarrow> bool" where
  "isColorKey (SetBgColor v) = True"
| "isColorKey (SetFgColor v) = True"
| "isColorKey (SetSolidBg v) = True"
| "isColorKey u = False"

text \<open>
  \<open>['gammaExponent', 'drawCircle', 'drawPolygon'].includes(key)\<close>, or
  \<open>key === 'liveRendering' && value === true\<close>.
\<close>

fun isRenderKey :: "settingUpdate \<Rightarrow> bool" where
  "isRenderKey (SetGammaExponent v) = True"
| "isRenderKey (SetDrawCircle v) = True"
| "isRenderKey (SetDrawPolygon v) = True"
| "isRenderKey (SetLiveRendering v) = v"
| "isRenderKey u = False"

text \<open>The case \<open>'updateSetting'\<close> of \<open>self.onmessage\<close>.\<close>

definition updateSetting :: "settingUpdate \<Rightarrow> state \<Rightarrow> error + state" where
  "updateSetting u s =
     (let s1 = s\<lparr>settings := assignSetting u (settings s)\<rparr>
      in if isColorKey u then
           (let s2 = updateColors s1
            in case pixelData s2 of
                 None \<Rightarrow> Inl TypeError
               | Some pd \<Rightarrow>
                   (let s3 = s2\<lparr>pixelData :=
                                  Some (replicate (length pd)
                                         (if solidBg (settings s2) then bg32 s2 else 0))\<rparr>
                    in if \<not> isRunning s3 \<or> liveRendering (settings s3) then renderFrame s3
                       else Inr s3))
         else if isRenderKey u then
           (if \<not> isRunning s1 \<or> liveRendering (settings s1) then renderFrame s1 else Inr s1)
         else Inr s1)"

text \<open>
  \<open>stop\<close>: nothing when the engine is not running; else the engine stops and a
  last frame is rendered.
\<close>

definition stop :: "state \<Rightarrow> error + state" where
  "stop s = (if \<not> isRunning s then Inr s else renderFrame (s\<lparr>isRunning := False\<rparr>))"

text \<open>The case \<open>'init'\<close>: \<open>setup\<close>, then \<open>renderFrame\<close>.\<close>

definition handleInit :: "(nat \<Rightarrow> real) \<Rightarrow> settings \<Rightarrow> state \<Rightarrow> error + state" where
  "handleInit rnd newSettings s =
     (case setup_worker rnd newSettings s of Inl e \<Rightarrow> Inl e | Inr s' \<Rightarrow> renderFrame s')"

text \<open>The case \<open>'reset'\<close>: \<open>stop\<close>, \<open>setup\<close>, then \<open>renderFrame\<close>.\<close>

definition handleReset :: "(nat \<Rightarrow> real) \<Rightarrow> settings \<Rightarrow> state \<Rightarrow> error + state" where
  "handleReset rnd newSettings s =
     (case stop s of Inl e \<Rightarrow> Inl e | Inr s1 \<Rightarrow> handleInit rnd newSettings s1)"

section \<open>Runs, observations and example configurations\<close>

text \<open>
  The number of vertices \<open>preDraw\<close> builds: the main vertices, as many midpoints when
  \<open>midpointVertex\<close> is set, and the centre when \<open>centerVertex\<close> is set.
\<close>

definition vertexCount :: "settings \<Rightarrow> nat" where
  "vertexCount st =
     (if midpointVertex st then 2 * nat (sides st) else nat (sides st)) +
     (if centerVertex st then 1 else 0)"

text \<open>
  A triangle on a 4 by 4 canvas, and the state object as the worker's source
  initialises it, once a canvas with a 2d context has arrived.  The source starts with
  \<open>settings: {}\<close>, which \<open>setup\<close> replaces before anything reads it; the field
  holds \<open>cfg3\<close> here.
\<close>

definition cfg3 :: settings where
  "cfg3 = \<lparr>canvasSize = 4, sides = 3, jumpDistance = 1 / 2, padding = 0,
     midpointVertex = False, centerVertex = False, symmetrical = False, autoStop = True,
     liveRendering = True, solidBg = True, restriction = RNone, gammaExponent = 3,
     stabilityNewPixelsThreshold = Some 1, fgColor = ''#FFFFFF'', bgColor = ''#000000'',
     drawCircle = False, drawPolygon = False\<rparr>"

definition freshState :: state where
  "freshState = \<lparr>settings = cfg3, vertices = [], mainVertices = [],
     currentPoint = \<lparr>px = 0, py = 0\<rparr>, center = \<lparr>px = 0, py = 0\<rparr>, radius = 0,
     imageMatrix = None, allowedMoves = [], pixelData = None, maxValue = 1, prevIndex = [],
     bgRGB = \<lparr>cr = Some 0, cg = Some 0, cb = Some 0\<rparr>,
     fgRGB = \<lparr>cr = Some 255, cg = Some 255, cb = Some 255\<rparr>,
     cosAngles = [], sinAngles = [], iterations = 0, stabilityCounter = 0,
     newPixelsSinceLastCheck = 0, newPixelsEma = 0, filledPixels = 0, isRunning = False,
     offscreenCanvas = Some 4, ctx = True, drawn = 0\<rparr>"

text \<open>The state with the vertices of \<open>cfg3\<close> built, under a given restriction.\<close>

definition geometryState :: "restriction \<Rightarrow> state" where
  "geometryState r =
     freshState\<lparr>settings := cfg3\<lparr>restriction := r\<rparr>,
                center := \<lparr>px = 2, py = 2\<rparr>, radius := 2,
                vertices := buildVertices (cfg3\<lparr>restriction := r\<rparr>) 2 \<lparr>px = 2, py = 2\<rparr>\<rparr>"

text \<open>A run: \<open>n\<close> calls of \<open>updateMatrix\<close>, as the batch loop of \<open>drawLoop\<close> makes them.\<close>

fun runSteps :: "(nat \<Rightarrow> real) \<Rightarrow> nat \<Rightarrow> state \<Rightarrow> error + state" where
  "runSteps rnd 0 s = Inr s"
| "runSteps rnd (Suc n) s =
     (case updateMatrix rnd s of Inl e \<Rightarrow> Inl e | Inr s' \<Rightarrow> runSteps rnd n s')"

text \<open>
  The vertex indices a run of \<open>n\<close> steps chooses, in order: after each step, the
  index \<open>updateCurrentPoint\<close> pushed last onto \<open>prevIndex\<close>.
\<close>

fun chosenTrace :: "(nat \<Rightarrow> real) \<Rightarrow> nat \<Rightarrow> state \<Rightarrow> error + nat list" where
  "chosenTrace rnd 0 s = Inr []"
| "chosenTrace rnd (Suc n) s =
     (case updateMatrix rnd s of
        Inl e \<Rightarrow> Inl e
      | Inr s' \<Rightarrow>
          (case chosenTrace rnd n s' of
             Inl e \<Rightarrow> Inl e
           | Inr tr \<Rightarrow> Inr (last (prevIndex s') # tr)))"

text \<open>Every draw lies in \<open>[0, 1)\<close>, as \<open>Math.random()\<close> promises.\<close>

definition unitDraws :: "(nat \<Rightarrow> real) \<Rightarrow> bool" where
  "unitDraws rnd = (\<forall>k. 0 \<le> rnd k \<and> rnd k < 1)"

text \<open>
  A square on a 4 by 4 canvas with no padding and a jump distance of 1 (the point
  lands on the chosen vertex), and an engine state with the geometry \<open>setup\<close> builds
  for it: the vertices, rotation tables and restriction table are the ones \<open>preDraw\<close>
  computes for radius 2 around (2, 2), the buffers have 16 cells, the history is empty.
\<close>

definition cfg4 :: settings where
  "cfg4 = \<lparr>canvasSize = 4, sides = 4, jumpDistance = 1, padding = 0,
     midpointVertex = False, centerVertex = False, symmetrical = False, autoStop = True,
     liveRendering = True, solidBg = True, restriction = RNone, gammaExponent = 3,
     stabilityNewPixelsThreshold = Some 1, fgColor = ''#FFFFFF'', bgColor = ''#000000'',
     drawCircle = False, drawPolygon = False\<rparr>"

definition squareVertices :: "point list" where
  "squareVertices =
     [\<lparr>px = 2, py = 0\<rparr>, \<lparr>px = 4, py = 2\<rparr>, \<lparr>px = 2, py = 4\<rparr>, \<lparr>px = 0, py = 2\<rparr>]"

definition squareState :: state where
  "squareState = \<lparr>settings = cfg4, vertices = squareVertices, mainVertices = squareVertices,
     currentPoint = \<lparr>px = 2, py = 2\<rparr>, center = \<lparr>px = 2, py = 2\<rparr>, radius = 2,
     imageMatrix = Some (replicate 16 0),
     allowedMoves = [[0, 1, 2, 3], [0, 1, 2, 3], [0, 1, 2, 3], [0, 1, 2, 3]],
     pixelData = Some (replicate 16 4278190080), maxValue = 1, prevIndex = [],
     bgRGB = \<lparr>cr = Some 0, cg = Some 0, cb = Some 0\<rparr>,
     fgRGB = \<lparr>cr = Some 255, cg = Some 255, cb = Some 255\<rparr>,
     cosAngles = [1, 0, - 1, 0], sinAngles = [0, 1, 0, - 1], iterations = 0,
     stabilityCounter = 0, newPixelsSinceLastCheck = 0, newPixelsEma = 0, filledPixels = 0,
     isRunning = False, offscreenCanvas = Some 4, ctx = True, drawn = 303\<rparr>"

text \<open>The square engine in the middle of a run: seven hits on one cell, two moves made.\<close>

definition busyState :: state where
  "busyState =
     squareState\<lparr>imageMatrix := Some ((replicate 16 0)[5 := 7]), maxValue := 7,
                   prevIndex := [1, 3], newPixelsSinceLastCheck := 1\<rparr>"

text \<open>
  Every count is at most \<open>2^24\<close>, the range in which \<open>toFloat32\<close> is the
  single-precision rounding; and the pointwise order of two density matrices together
  with their maxima.
\<close>

definition exactCounts :: "state \<Rightarrow> bool" where
  "exactCounts s =
     (case imageMatrix s of None \<Rightarrow> False | Some m \<Rightarrow> list_all (\<lambda>v. v \<le> 16777216) m)"

definition densityLe :: "state \<Rightarrow> state \<Rightarrow> bool" where
  "densityLe s s' =
     (case imageMatrix s of
        None \<Rightarrow> False
      | Some m \<Rightarrow>
          (case imageMatrix s' of
             None \<Rightarrow> False
           | Some m' \<Rightarrow> list_all2 (\<le>) m m' \<and> maxValue s \<le> maxValue s'))"

text \<open>
  The walk can take a step: there is a vertex, the restriction table has an entry for
  each vertex, every entry is non-empty and names vertices only, and so does the move
  history.
\<close>

definition walkReady :: "state \<Rightarrow> bool" where
  "walkReady s =
     (let n = length (vertices s)
      in 0 < n \<and> length (allowedMoves s) = n \<and>
         list_all (\<lambda>a. a \<noteq> [] \<and> list_all (\<lambda>c. c < n) a) (allowedMoves s) \<and>
         list_all (\<lambda>i. i < n) (prevIndex s))"

text \<open>The fields a walk step and a plotted point leave alone.\<close>

definition sameEngine :: "state \<Rightarrow> state \<Rightarrow> bool" where
  "sameEngine s s' =
     (settings s' = settings s \<and> vertices s' = vertices s \<and> mainVertices s' = mainVertices s \<and>
      allowedMoves s' = allowedMoves s \<and> cosAngles s' = cosAngles s \<and>
      sinAngles s' = sinAngles s \<and> center s' = center s \<and> radius s' = radius s \<and>
      fgRGB s' = fgRGB s \<and> bgRGB s' = bgRGB s \<and> ctx s' = ctx s \<and>
      offscreenCanvas s' = offscreenCanvas s \<and> isRunning s' = isRunning s)"

text \<open>The restriction table \<open>preDraw\<close> builds for a configuration.\<close>

definition restrictionTable :: "settings \<Rightarrow> nat list list" where
  "restrictionTable st = map (allowedFrom st (vertexCount st)) [0..<vertexCount st]"

text \<open>
  A configuration that is invalid in four ways: two sides, a negative radius
  (\<open>4 / 2 - 5\<close>), a foreground colour that is no colour, and a negative gamma.
\<close>

definition degenerateCfg :: settings where
  "degenerateCfg = cfg3\<lparr>sides := 2, padding := 5, fgColor := ''transparentish'',
     gammaExponent := - 1\<rparr>"

text \<open>
  \<open>twoBackAt P d xs\<close>: every element of \<open>xs\<close> from the third on is related by
  \<open>P\<close> to the element two places before it, \<open>P\<close> being given the number of the
  draw as well: \<open>d\<close> for the third element, \<open>d + 1\<close> for the fourth, and so on.
\<close>

fun twoBackAt :: "(nat \<Rightarrow> nat \<Rightarrow> nat \<Rightarrow> bool) \<Rightarrow> nat \<Rightarrow> nat list \<Rightarrow> bool" where
  "twoBackAt P d (a # b # c # xs) = (P d a c \<and> twoBackAt P (d + 1) (b # c # xs))"
| "twoBackAt P d xs = True"

text \<open>The choice of a step from the table entry of \<open>a\<close> with the draw number \<open>d\<close>.\<close>

definition drawnFrom :: "(nat \<Rightarrow> real) \<Rightarrow> nat list list \<Rightarrow> nat \<Rightarrow> nat \<Rightarrow> nat \<Rightarrow> bool" where
  "drawnFrom rnd T d a c =
     (a < length T \<and> randomIndex (rnd d) (length (T ! a)) < length (T ! a) \<and>
      c = T ! a ! randomIndex (rnd d) (length (T ! a)))"

text \<open>The last \<open>k\<close> elements of a list.\<close>

definition lastN :: "nat \<Rightarrow> 'a list \<Rightarrow> 'a list" where
  "lastN k xs = drop (length xs - k) xs"

text \<open>
  The colour the normalizer gives a cell with \<open>v\<close> hits: \<open>normalizeValue\<close> with
  \<open>logMax = Math.log(1 + maxValue)\<close>, then \<open>calculatePixelValue\<close>.
\<close>

definition normalizedPixel :: "state \<Rightarrow> nat \<Rightarrow> 32 word" where
  "normalizedPixel s v =
     calculatePixelValue s (normalizeValue s (real v) (ln (1 + real (maxValue s))))"

text \<open>The geometry and the walk are the same in two states.\<close>

definition geometryKept :: "state \<Rightarrow> state \<Rightarrow> bool" where
  "geometryKept s s' =
     (vertices s' = vertices s \<and> mainVertices s' = mainVertices s \<and> center s' = center s \<and>
      radius s' = radius s \<and> cosAngles s' = cosAngles s \<and> sinAngles s' = sinAngles s \<and>
      allowedMoves s' = allowedMoves s \<and> currentPoint s' = currentPoint s \<and>
      prevIndex s' = prevIndex s \<and> drawn s' = drawn s)"

text \<open>The busy square engine while it runs, with live rendering switched off.\<close>

definition runningState :: state where
  "runningState = busyState\<lparr>isRunning := True, settings := cfg4\<lparr>liveRendering := False\<rparr>\<rparr>"

text \<open>The busy square engine with the background colour (18, 52, 86).\<close>

definition paintedState :: state where
  "paintedState = busyState\<lparr>bgRGB := \<lparr>cr = Some 18, cg = Some 52, cb = Some 86\<rparr>\<rparr>"

text \<open>A pentagon: \<open>cfg3\<close> with five sides.\<close>

definition cfg5 :: settings where
  "cfg5 = cfg3\<lparr>sides := 5\<rparr>"

section \<open>Properties\<close>

subsection \<open>The colour normalizer at a small maximum\<close>

text \<open>
  C7, as the specification states it: when \<open>maxValue \<le> 1\<close> the normalizer returns 0
  for every raw hit count.  The code does not: after \<open>erase\<close> the maximum is 1,
  \<open>logMax\<close> is \<open>ln 2\<close>, the guard \<open>logMax <= 0\<close> does not fire, and a cell with one
  hit normalizes to 1.
\<close>

theorem normalizeValue_maxValue_one_counterexample:
  "maxValue freshState \<le> 1 \<and>
   normalizeValue freshState 1 (ln (1 + real (maxValue freshState))) = 1"
  by (simp add: freshState_def normalizeValue_def cfg3_def)

text \<open>
  C7, amended: \<open>normalizeValue\<close> returns 0 when \<open>logMax \<le> 0\<close>; with
  \<open>logMax = ln (1 + maxValue)\<close> and a maximum of at least 1 the guard never fires,
  and every positive raw count normalizes to the positive number
  \<open>(ln (1 + raw) / ln (1 + maxValue)) ^ gammaExponent\<close>.
\<close>

theorem normalizeValue_guard:
  "(logMax \<le> 0 \<longrightarrow> normalizeValue s raw logMax = 0) \<and>
   (1 \<le> maxValue s \<longrightarrow> 0 < raw \<longrightarrow>
      normalizeValue s raw (ln (1 + real (maxValue s))) =
        (ln (1 + raw) / ln (1 + real (maxValue s))) powr gammaExponent (settings s) \<and>
      0 < normalizeValue s raw (ln (1 + real (maxValue s))))"
proof -
  have pos: "0 < ln (1 + real (maxValue s))" if "1 \<le> maxValue s"
    using that by (simp add: ln_gt_zero)
  have pos2: "0 < ln (1 + raw)" if "0 < raw"
    using that by (simp add: ln_gt_zero)
  show ?thesis
    using pos pos2 by (auto simp: normalizeValue_def not_le)
qed

theorem normalizeValue_guard_witness:
  "normalizeValue freshState 5 0 = 0 \<and>
   0 < normalizeValue freshState 1 (ln (1 + real (maxValue freshState)))"
  using normalizeValue_guard [of 0 freshState 5] normalizeValue_guard [of 0 freshState 1]
  by (simp add: freshState_def)

subsection \<open>The stability threshold\<close>

text \<open>
  C10: when \<open>stabilityNewPixelsThreshold\<close> is \<open>undefined\<close> or 0, \<open>checkStability\<close>
  compares the moving average with 1: the quiet counter grows by one when the new
  average is below 1 and is reset otherwise, and the check reports convergence when the
  average is below 1 and the counter reaches the window.
\<close>

theorem checkStability_falsy_threshold:
  assumes "stabilityNewPixelsThreshold (settings s) = None \<or>
           stabilityNewPixelsThreshold (settings s) = Some 0"
  shows "newPixelsEma (snd (checkStability s)) =
           EMA_ALPHA * real (newPixelsSinceLastCheck s) + (1 - EMA_ALPHA) * newPixelsEma s \<and>
         stabilityCounter (snd (checkStability s)) =
           (if newPixelsEma (snd (checkStability s)) < 1 then stabilityCounter s + 1 else 0) \<and>
         fst (checkStability s) =
           (newPixelsEma (snd (checkStability s)) < 1 \<and> STABILITY_WINDOW \<le> stabilityCounter s + 1)"
  using assms by (auto simp: checkStability_def Let_def)

theorem checkStability_falsy_threshold_witness:
  "stabilityCounter (snd (checkStability
      (freshState\<lparr>settings := cfg3\<lparr>stabilityNewPixelsThreshold := Some 0\<rparr>\<rparr>))) = 1"
  using checkStability_falsy_threshold
    [of "freshState\<lparr>settings := cfg3\<lparr>stabilityNewPixelsThreshold := Some 0\<rparr>\<rparr>"]
  by (simp add: freshState_def EMA_ALPHA_def)

subsection \<open>The restriction table\<close>

lemma length_spliceMidpoints: "length (spliceMidpoints ms i vs) = length vs + length ms"
  by (induction ms i vs rule: spliceMidpoints.induct) auto

lemma length_buildVertices: "length (buildVertices st rad c) = vertexCount st"
  by (simp add: buildVertices_def Let_def mainPolygon_def midpoints_def
      length_spliceMidpoints vertexCount_def)

lemma length_buildRestrictions:
  "length (allowedMoves (buildRestrictions s)) = length (vertices s)"
  by (simp add: buildRestrictions_def)

lemma nth_buildRestrictions:
  "i < length (vertices s) \<Longrightarrow>
   allowedMoves (buildRestrictions s) ! i = allowedFrom (settings s) (length (vertices s)) i"
  by (simp add: buildRestrictions_def)

lemma distinct_allowedFrom: "distinct (allowedFrom st n i)"
  by (simp add: allowedFrom_def Let_def)

lemma set_allowedFrom_subset: "set (allowedFrom st n i) \<subseteq> {0..<n}"
  by (auto simp: allowedFrom_def Let_def)

lemma allowedFrom_nonempty:
  assumes "i < n" and "2 \<le> n" and "2 \<le> sides st"
  shows "allowedFrom st n i \<noteq> []"
proof -
  define ring where "ring = (if midpointVertex st then sides st * 2 else sides st)"
  have ring2: "2 \<le> ring" using assms(3) by (simp add: ring_def)
  have "\<exists>j<n. j \<noteq> i"
  proof (cases "i = 0")
    case True
    then show ?thesis using assms(2) by (intro exI [of _ 1]) simp
  next
    case False
    then show ?thesis using assms(1) by (intro exI [of _ 0]) simp
  qed
  then obtain j where j: "j < n" "j \<noteq> i" by blast
  have self: "int i \<noteq> (int i - 1 + ring) mod ring \<and> int i \<noteq> (int i + 1) mod ring"
    if lt: "int i < ring"
  proof (cases "i = 0")
    case True
    then show ?thesis using ring2 by (simp add: zmod_minus1)
  next
    case False
    then have a: "(int i - 1 + ring) mod ring = int i - 1" using lt by simp
    have b: "(int i + 1) mod ring = (if int i + 1 = ring then 0 else int i + 1)"
      using lt by simp
    show ?thesis using False a b by auto
  qed
  have "i \<in> set (allowedFrom st n i) \<or> j \<in> set (allowedFrom st n i)"
    using assms(1) j self by (auto simp: allowedFrom_def Let_def ring_def)
  then show ?thesis by auto
qed

text \<open>
  C4: the table \<open>buildRestrictions\<close> builds has one entry for each vertex, and the
  entry of the vertex \<open>i\<close> holds, without repetition: under \<open>none\<close>, every vertex
  index; under \<open>no-repeat\<close>, \<open>no-double-repeat\<close> and \<open>no-return\<close>, every index but
  \<open>i\<close>; under \<open>no-neighbor\<close> and \<open>no-neighbor-after-repeat\<close>, every index but the two
  ring neighbours \<open>(i - 1 + ringSize) mod ringSize\<close> and \<open>(i + 1) mod ringSize\<close> when
  \<open>i < ringSize\<close>, and every index when \<open>i \<ge> ringSize\<close> (the centre).  When
  \<open>sides \<ge> 3\<close> and the vertices are the ones \<open>preDraw\<close> builds, the entry is not empty.
\<close>

theorem buildRestrictions_table:
  assumes "i < length (vertices s)"
  shows "length (allowedMoves (buildRestrictions s)) = length (vertices s) \<and>
    distinct (allowedMoves (buildRestrictions s) ! i) \<and>
    (restriction (settings s) = RNone \<longrightarrow>
       set (allowedMoves (buildRestrictions s) ! i) = {j. j < length (vertices s)}) \<and>
    (restriction (settings s) \<in> {NoRepeat, NoDoubleRepeat, NoReturn} \<longrightarrow>
       set (allowedMoves (buildRestrictions s) ! i) = {j. j < length (vertices s) \<and> j \<noteq> i}) \<and>
    (restriction (settings s) \<in> {NoNeighbor, NoNeighborAfterRepeat} \<longrightarrow>
       (let ringSize = (if midpointVertex (settings s) then 2 * sides (settings s)
                        else sides (settings s))
        in (int i < ringSize \<longrightarrow>
              set (allowedMoves (buildRestrictions s) ! i) =
                {j. j < length (vertices s) \<and> int j \<noteq> (int i - 1 + ringSize) mod ringSize \<and>
                    int j \<noteq> (int i + 1) mod ringSize}) \<and>
           (ringSize \<le> int i \<longrightarrow>
              set (allowedMoves (buildRestrictions s) ! i) = {j. j < length (vertices s)}))) \<and>
    (3 \<le> sides (settings s) \<longrightarrow>
       vertices s = buildVertices (settings s) (radius s) (center s) \<longrightarrow>
       allowedMoves (buildRestrictions s) ! i \<noteq> [])"
proof -
  let ?n = "length (vertices s)"
  have nth: "allowedMoves (buildRestrictions s) ! i = allowedFrom (settings s) ?n i"
    using assms by (rule nth_buildRestrictions)
  have c1: "restriction (settings s) = RNone \<longrightarrow> set (allowedFrom (settings s) ?n i) = {j. j < ?n}"
    by (auto simp: allowedFrom_def Let_def)
  have c2: "restriction (settings s) \<in> {NoRepeat, NoDoubleRepeat, NoReturn} \<longrightarrow>
       set (allowedFrom (settings s) ?n i) = {j. j < ?n \<and> j \<noteq> i}"
    by (auto simp: allowedFrom_def Let_def)
  have c3: "restriction (settings s) \<in> {NoNeighbor, NoNeighborAfterRepeat} \<longrightarrow>
       (let ringSize = (if midpointVertex (settings s) then 2 * sides (settings s)
                        else sides (settings s))
        in (int i < ringSize \<longrightarrow>
              set (allowedFrom (settings s) ?n i) =
                {j. j < ?n \<and> int j \<noteq> (int i - 1 + ringSize) mod ringSize \<and>
                    int j \<noteq> (int i + 1) mod ringSize}) \<and>
           (ringSize \<le> int i \<longrightarrow> set (allowedFrom (settings s) ?n i) = {j. j < ?n}))"
    by (auto simp: allowedFrom_def Let_def mult.commute)
  have c4: "3 \<le> sides (settings s) \<longrightarrow>
       vertices s = buildVertices (settings s) (radius s) (center s) \<longrightarrow>
       allowedFrom (settings s) ?n i \<noteq> []"
  proof (intro impI)
    assume s3: "3 \<le> sides (settings s)"
      and vs: "vertices s = buildVertices (settings s) (radius s) (center s)"
    have "?n = vertexCount (settings s)"
      using vs length_buildVertices by metis
    then have "2 \<le> ?n" using s3 by (simp add: vertexCount_def split: if_splits)
    then show "allowedFrom (settings s) ?n i \<noteq> []"
      using allowedFrom_nonempty [of i ?n "settings s"] assms s3 by simp
  qed
  show ?thesis
    unfolding nth using c1 c2 c3 c4
    by (simp add: length_buildRestrictions distinct_allowedFrom)
qed

theorem buildRestrictions_table_witness:
  "set (allowedMoves (buildRestrictions (geometryState RNone)) ! 0) = {j. j < 3} \<and>
   allowedMoves (buildRestrictions (geometryState RNone)) ! 0 \<noteq> [] \<and>
   set (allowedMoves (buildRestrictions (geometryState NoReturn)) ! 1) = {j. j < 3 \<and> j \<noteq> 1} \<and>
   set (allowedMoves (buildRestrictions (geometryState NoNeighbor)) ! 0) = {j. j < 3 \<and> int j \<noteq> 2 \<and> int j \<noteq> 1}"
proof -
  have g: "settings (geometryState r) = cfg3\<lparr>restriction := r\<rparr>"
    "vertices (geometryState r) = buildVertices (cfg3\<lparr>restriction := r\<rparr>) 2 \<lparr>px = 2, py = 2\<rparr>"
    "radius (geometryState r) = 2" "center (geometryState r) = \<lparr>px = 2, py = 2\<rparr>" for r
    by (simp_all add: geometryState_def freshState_def)
  have l: "length (vertices (geometryState r)) = 3" for r
    by (simp add: g length_buildVertices vertexCount_def cfg3_def)
  have s: "sides (settings (geometryState r)) = 3" "\<not> midpointVertex (settings (geometryState r))"
    "restriction (settings (geometryState r)) = r" for r
    by (simp_all add: g cfg3_def)
  have v: "vertices (geometryState r) =
      buildVertices (settings (geometryState r)) (radius (geometryState r)) (center (geometryState r))" for r
    by (simp add: g)
  have lt: "0 < length (vertices (geometryState r))" "1 < length (vertices (geometryState r))" for r
    by (simp_all add: l)
  note A = buildRestrictions_table [OF lt(1) [of RNone]]
  note B = buildRestrictions_table [OF lt(2) [of NoReturn]]
  note C = buildRestrictions_table [OF lt(1) [of NoNeighbor]]
  have a1: "set (allowedMoves (buildRestrictions (geometryState RNone)) ! 0) = {j. j < 3}"
    using A by (simp add: l s)
  have a2: "allowedMoves (buildRestrictions (geometryState RNone)) ! 0 \<noteq> []"
    using A v [of RNone] s(1) [of RNone] by simp
  have b: "set (allowedMoves (buildRestrictions (geometryState NoReturn)) ! 1) = {j. j < 3 \<and> j \<noteq> 1}"
    using B by (simp add: l s)
  have c: "set (allowedMoves (buildRestrictions (geometryState NoNeighbor)) ! 0) =
      {j. j < 3 \<and> int j \<noteq> 2 \<and> int j \<noteq> 1}"
    using C by (simp add: l s)
  show ?thesis using a1 a2 b c by blast
qed

subsection \<open>The density matrix within a run\<close>

lemma densityLe_refl: "imageMatrix s = Some m \<Longrightarrow> densityLe s s"
  by (simp add: densityLe_def list_all2_refl)

lemma densityLe_trans: "densityLe a b \<Longrightarrow> densityLe b c \<Longrightarrow> densityLe a c"
proof -
  have t: "list_all2 (\<le>) x y \<Longrightarrow> list_all2 (\<le>) y z \<Longrightarrow> list_all2 (\<le>) x z"
    for x y z :: "nat list"
    by (rule list_all2_trans [of "(\<le>)" "(\<le>)" "(\<le>)"]) auto
  assume "densityLe a b" "densityLe b c"
  then show ?thesis
    unfolding densityLe_def by (auto split: option.splits intro: t)
qed

lemma list_all2_update_le:
  "k < length m \<Longrightarrow> m ! k \<le> v \<Longrightarrow> list_all2 (\<le>) m (m[k := v :: nat])"
  by (auto simp: list_all2_conv_all_nth nth_list_update)

lemma plotPoint_grows:
  assumes "plotPoint pt s = Inr s'" and "exactCounts s"
  shows "densityLe s s' \<and> exactCounts s'"
proof -
  obtain m where m: "imageMatrix s = Some m" and b: "list_all (\<lambda>v. v \<le> 16777216) m"
    using assms(2) by (auto simp: exactCounts_def split: option.splits)
  show ?thesis
  proof (cases pt)
    case None
    then show ?thesis using assms m by (simp add: plotPoint_def densityLe_refl)
  next
    case (Some p)
    define index where "index = js_round (py p) * int (canvasSize (settings s)) + js_round (px p)"
    show ?thesis
    proof (cases "0 \<le> index \<and> index < int (length m)")
      case False
      then have "s' = s" using assms(1) m Some by (auto simp: plotPoint_def Let_def index_def)
      then show ?thesis using assms(2) m by (simp add: densityLe_refl)
    next
      case True
      define k where "k = nat index"
      have k: "k < length m" using True by (simp add: k_def nat_less_iff)
      have mk: "m ! k \<le> 16777216" using b k by (simp add: list_all_length)
      have s': "imageMatrix s' = Some (m[k := toFloat32 (m ! k + 1)])"
        "maxValue s \<le> maxValue s'"
        using assms(1) m Some True
        by (auto simp: plotPoint_def Let_def index_def k_def split: if_splits)
      have le: "m ! k \<le> toFloat32 (m ! k + 1)" using mk by (simp add: toFloat32_def)
      have bd: "toFloat32 (m ! k + 1) \<le> 16777216" by (simp add: toFloat32_def)
      have "list_all (\<lambda>v. v \<le> 16777216) (m[k := toFloat32 (m ! k + 1)])"
        using b bd k by (auto simp: list_all_length nth_list_update)
      then show ?thesis
        using m k le s' by (simp add: densityLe_def exactCounts_def list_all2_update_le)
    qed
  qed
qed

lemma plotPoints_grows:
  "plotPoints ps s = Inr s' \<Longrightarrow> exactCounts s \<Longrightarrow> densityLe s s' \<and> exactCounts s'"
proof (induction ps arbitrary: s)
  case Nil
  then show ?case by (auto simp: exactCounts_def densityLe_refl split: option.splits)
next
  case (Cons p ps)
  then obtain s1 where s1: "plotPoint p s = Inr s1" and r: "plotPoints ps s1 = Inr s'"
    by (auto split: sum.splits)
  from plotPoint_grows [OF s1 Cons.prems(2)] have a: "densityLe s s1" "exactCounts s1" by auto
  from Cons.IH [OF r a(2)] a(1) show ?case by (auto intro: densityLe_trans)
qed

lemma updateCurrentPoint_fields:
  assumes "updateCurrentPoint rnd s = Inr s'"
  shows "imageMatrix s' = imageMatrix s" "maxValue s' = maxValue s" "settings s' = settings s"
    "vertices s' = vertices s" "allowedMoves s' = allowedMoves s" "pixelData s' = pixelData s"
    "ctx s' = ctx s" "drawn s' = drawn s + 1" "cosAngles s' = cosAngles s"
    "sinAngles s' = sinAngles s" "center s' = center s" "radius s' = radius s"
    "mainVertices s' = mainVertices s" "offscreenCanvas s' = offscreenCanvas s"
    "fgRGB s' = fgRGB s" "bgRGB s' = bgRGB s" "isRunning s' = isRunning s"
  using assms by (auto simp: updateCurrentPoint_def Let_def split: sum.splits if_splits)

lemma updateMatrix_grows:
  assumes "updateMatrix rnd s = Inr s'" and "exactCounts s"
  shows "densityLe s s' \<and> exactCounts s'"
proof -
  obtain s1 where s1: "updateCurrentPoint rnd s = Inr s1"
    and r: "plotPoints (symmetryPoints s1) s1 = Inr s'"
    using assms(1) by (auto simp: updateMatrix_def split: sum.splits)
  have e1: "exactCounts s1" using assms(2) updateCurrentPoint_fields(1) [OF s1]
    by (simp add: exactCounts_def)
  have d: "densityLe s s1 \<and> densityLe s1 s"
    using assms(2) updateCurrentPoint_fields(1,2) [OF s1]
    by (auto simp: densityLe_def exactCounts_def list_all2_refl split: option.splits)
  from plotPoints_grows [OF r e1] d show ?thesis by (auto intro: densityLe_trans)
qed

lemma runSteps_grows:
  "runSteps rnd n s = Inr s' \<Longrightarrow> exactCounts s \<Longrightarrow> densityLe s s' \<and> exactCounts s'"
proof (induction n arbitrary: s)
  case 0
  then show ?case by (auto simp: exactCounts_def densityLe_refl split: option.splits)
next
  case (Suc n)
  then obtain s1 where s1: "updateMatrix rnd s = Inr s1" and r: "runSteps rnd n s1 = Inr s'"
    by (auto split: sum.splits)
  from updateMatrix_grows [OF s1 Suc.prems(2)] have a: "densityLe s s1" "exactCounts s1" by auto
  from Suc.IH [OF r a(2)] a(1) show ?case by (auto intro: densityLe_trans)
qed

lemma erase_clears:
  assumes "ctx s0" and "erase s0 = Inr s"
  shows "maxValue s = 1" "prevIndex s = []" "exactCounts s"
    "\<exists>m. imageMatrix s = Some m \<and> list_all (\<lambda>v. v = 0) m"
    "settings s = settings s0" "vertices s = vertices s0" "allowedMoves s = allowedMoves s0"
  using assms
  by (auto simp: erase_def Let_def exactCounts_def list_all_length split: option.splits)

lemma plotPoint_maxValue:
  assumes "plotPoint pt s = Inr s'" and "imageMatrix s = Some m"
  shows "maxValue s' = maxValue s \<or>
         (\<exists>k<length m. maxValue s < m ! k + 1 \<and> maxValue s' = m ! k + 1)"
proof (cases pt)
  case None
  then show ?thesis using assms by (simp add: plotPoint_def)
next
  case (Some p)
  define index where "index = js_round (py p) * int (canvasSize (settings s)) + js_round (px p)"
  show ?thesis
  proof (cases "0 \<le> index \<and> index < int (length m)")
    case False
    then have "s' = s" using assms Some by (auto simp: plotPoint_def Let_def index_def)
    then show ?thesis by simp
  next
    case True
    then have k: "nat index < length m" by (simp add: nat_less_iff)
    have "maxValue s' = (if m ! nat index + 1 > maxValue s then m ! nat index + 1 else maxValue s)"
      using assms Some True by (auto simp: plotPoint_def Let_def index_def split: if_splits)
    then show ?thesis using k by (cases "m ! nat index + 1 > maxValue s") auto
  qed
qed

text \<open>
  C6: in a run that starts with \<open>erase\<close> (the drawing context being present), the
  maximum is 1 right after the \<open>erase\<close>; between any two moments of the run, the
  later \<open>k\<close> steps after the earlier, every cell of the density matrix has grown or
  stayed and the maximum has not decreased; and a plotted point changes the maximum only
  to the incremented value of the cell it hit, when that value exceeds the maximum.
\<close>

theorem run_density_monotone:
  assumes "ctx s0" and "erase s0 = Inr s"
    and "runSteps rnd j s = Inr s1" and "runSteps rnd k s1 = Inr s2"
  shows "maxValue s = 1 \<and>
         (\<exists>m1 m2. imageMatrix s1 = Some m1 \<and> imageMatrix s2 = Some m2 \<and>
            list_all2 (\<le>) m1 m2 \<and>
            (\<forall>pt s'. plotPoint pt s1 = Inr s' \<longrightarrow>
               maxValue s' = maxValue s1 \<or>
               (\<exists>i<length m1. maxValue s1 < m1 ! i + 1 \<and> maxValue s' = m1 ! i + 1))) \<and>
         1 \<le> maxValue s1 \<and> maxValue s1 \<le> maxValue s2"
proof -
  note e = erase_clears [OF assms(1,2)]
  from runSteps_grows [OF assms(3) e(3)] have a: "densityLe s s1" "exactCounts s1" by auto
  from runSteps_grows [OF assms(4) a(2)] have b: "densityLe s1 s2" by auto
  obtain m1 m2 where m: "imageMatrix s1 = Some m1" "imageMatrix s2 = Some m2"
    "list_all2 (\<le>) m1 m2" "maxValue s1 \<le> maxValue s2"
    using b by (auto simp: densityLe_def split: option.splits)
  have "maxValue s \<le> maxValue s1" using a(1) by (auto simp: densityLe_def split: option.splits)
  then have "1 \<le> maxValue s1" using e(1) by simp
  then show ?thesis using e(1) m plotPoint_maxValue [OF _ m(1)] by blast
qed

text \<open>Unfolding the engine on a concrete state.\<close>

lemmas eval_defs = updateMatrix_def updateCurrentPoint_def chooseIndex_def squareState_def cfg4_def
  squareVertices_def randomIndex_def pushHistory_def symmetryPoints_def plotPoint_def js_round_def
  toFloat32_def Let_def busyState_def erase_def backgroundFill_def bg32_def pack32_def toInt32_def
  nthOpt_def atBack_def

theorem run_density_monotone_witness:
  "\<exists>s s2. erase busyState = Inr s \<and> runSteps (\<lambda>k. 3 / 8) 1 s = Inr s2 \<and>
      maxValue s = 1 \<and> maxValue s \<le> maxValue s2 \<and>
      imageMatrix s2 = Some ((replicate 16 0)[12 := 1])"
proof -
  define s where "s = projr (erase busyState)"
  define s2 where "s2 = projr (runSteps (\<lambda>k. 3 / 8) 1 s)"
  have c: "ctx busyState" by (simp add: busyState_def squareState_def)
  have e: "erase busyState = Inr s"
    by (simp add: s_def eval_defs)
  have r0: "runSteps (\<lambda>k. 3 / 8) 0 s = Inr s" by simp
  have r1: "runSteps (\<lambda>k. 3 / 8) 1 s = Inr s2"
    by (simp add: s2_def s_def eval_defs)
  have m: "imageMatrix s2 = Some ((replicate 16 0)[12 := 1])"
    by (simp add: s2_def s_def eval_defs)
  from run_density_monotone [OF c e r0 r1] e r1 m show ?thesis by auto
qed

subsection \<open>Points that round outside the canvas\<close>

text \<open>
  \<open>squareState\<close> is the geometry \<open>preDraw\<close> computes for \<open>cfg4\<close>: its vertices, its
  rotation tables, its restriction table and its radius.
\<close>

lemma squareState_geometry:
  "buildVertices cfg4 2 \<lparr>px = 2, py = 2\<rparr> = vertices squareState \<and>
   map cos (rotationAngles cfg4) = cosAngles squareState \<and>
   map sin (rotationAngles cfg4) = sinAngles squareState \<and>
   allowedMoves (buildRestrictions squareState) = allowedMoves squareState \<and>
   real (canvasSize cfg4) / 2 - padding cfg4 = radius squareState"
proof -
  have "cos (pi * 3 / 2) = 0" "sin (pi * 3 / 2) = - 1"
    using cos_3over2_pi sin_3over2_pi by (simp_all add: mult.commute)
  then show ?thesis
    by (simp add: buildVertices_def mainPolygon_def rotationAngles_def cfg4_def squareVertices_def
        squareState_def buildRestrictions_def allowedFrom_def upt_conv_Cons Let_def)
qed

text \<open>
  C1: on the 4 by 4 canvas, the step that lands on the vertex (4, 2) has \<open>x\<close> out of
  range and the flat index \<open>2 * 4 + 4 = 12\<close> in range: the hit is counted in the cell
  12, which is the pixel (0, 3) of the next row.  The step that lands on the vertex
  (2, 4) has \<open>y\<close> out of range and the flat index 18 out of range: nothing is
  counted.  The two points outside the canvas are not handled by one policy.
\<close>

theorem updateMatrix_outside_canvas:
  "\<exists>s1 s2. updateMatrix (\<lambda>k. 3 / 8) squareState = Inr s1 \<and>
      currentPoint s1 = \<lparr>px = 4, py = 2\<rparr> \<and>
      imageMatrix s1 = Some ((replicate 16 0)[12 := 1]) \<and>
      updateMatrix (\<lambda>k. 5 / 8) squareState = Inr s2 \<and>
      currentPoint s2 = \<lparr>px = 2, py = 4\<rparr> \<and>
      imageMatrix s2 = Some (replicate 16 0)"
  by (simp add: eval_defs)

subsection \<open>erase, then a render snapshot\<close>

lemma pixelLoop_zero: "\<forall>v\<in>set m. v = 0 \<Longrightarrow> pixelLoop s l m i pd = pd"
  by (induction m arbitrary: i pd) auto

lemma alpha_opaque: "drop_bit 24 (pack32 255 b g r) = 255"
proof -
  have m: "(255 :: 32 word) = mask 8" by (simp add: mask_eq_exp_minus_1)
  show ?thesis
    unfolding pack32_def m
    by (rule bit_word_eqI) (auto simp: bit_simps dest: bit_imp_le_length)
qed

lemma byte_word: "r \<le> 255 \<Longrightarrow> (of_nat r :: 32 word) = take_bit 8 (of_nat r)"
proof -
  assume "r \<le> 255"
  then have "take_bit 8 r = r" by (simp add: take_bit_nat_eq_self_iff)
  then show ?thesis by (metis take_bit_of_nat)
qed

lemma packed_bytes:
  fixes a b g r :: "32 word"
  assumes "b = take_bit 8 b" and "g = take_bit 8 g" and "r = take_bit 8 r"
  shows "take_bit 8 (push_bit 24 255 OR push_bit 16 b OR push_bit 8 g OR r) = r"
    and "take_bit 8 (drop_bit 8 (push_bit 24 255 OR push_bit 16 b OR push_bit 8 g OR r)) = g"
    and "take_bit 8 (drop_bit 16 (push_bit 24 255 OR push_bit 16 b OR push_bit 8 g OR r)) = b"
proof -
  have m: "(255 :: 32 word) = mask 8" by (simp add: mask_eq_exp_minus_1)
  show "take_bit 8 (push_bit 24 255 OR push_bit 16 b OR push_bit 8 g OR r) = r"
    apply (subst (2) assms(3))
    apply (rule bit_word_eqI)
    apply (auto simp: bit_simps m)
    done
  show "take_bit 8 (drop_bit 8 (push_bit 24 255 OR push_bit 16 b OR push_bit 8 g OR r)) = g"
    apply (subst (2) assms(2))
    apply (subst assms(3))
    apply (rule bit_word_eqI)
    apply (auto simp: bit_simps m)
    done
  show "take_bit 8 (drop_bit 16 (push_bit 24 255 OR push_bit 16 b OR push_bit 8 g OR r)) = b"
    apply (subst (2) assms(1))
    apply (subst assms(2))
    apply (subst assms(3))
    apply (rule bit_word_eqI)
    apply (auto simp: bit_simps m)
    done
qed

text \<open>
  C8: with the drawing context present and the buffers allocated, \<open>erase\<close> followed by
  \<open>prepareCanvasForOutput\<close> leaves every hit count at zero and every cell of the pixel
  buffer at one value.  Without \<open>solidBg\<close> the value is 0, fully transparent.  With
  \<open>solidBg\<close> it is \<open>(0xFF << 24) | (b << 16) | (g << 8) | r\<close> for the components
  \<open>r\<close>, \<open>g\<close>, \<open>b\<close> of the parsed background colour (an \<open>undefined\<close> component
  counting as 0): its highest byte is 255, opaque, and when the components are bytes its
  other three bytes are \<open>b\<close>, \<open>g\<close> and \<open>r\<close>, the background colour.
\<close>

theorem erase_then_render_flat:
  assumes "ctx s" and "imageMatrix s = Some m" and "pixelData s = Some pd"
  shows "\<exists>s1 s2 fill. erase s = Inr s1 \<and> prepareCanvasForOutput s1 = Inr s2 \<and>
           imageMatrix s2 = Some (replicate (length m) 0) \<and>
           pixelData s2 = Some (replicate (length pd) fill) \<and>
           (\<not> solidBg (settings s) \<longrightarrow> fill = 0) \<and>
           (solidBg (settings s) \<longrightarrow>
              fill = push_bit 24 255
                     OR push_bit 16 (case cb (bgRGB s) of None \<Rightarrow> 0 | Some b \<Rightarrow> of_nat b)
                     OR push_bit 8 (case cg (bgRGB s) of None \<Rightarrow> 0 | Some g \<Rightarrow> of_nat g)
                     OR (case cr (bgRGB s) of None \<Rightarrow> 0 | Some r \<Rightarrow> of_nat r) \<and>
              drop_bit 24 fill = 255 \<and>
              (\<forall>r g b. bgRGB s = \<lparr>cr = Some r, cg = Some g, cb = Some b\<rparr> \<and>
                   r \<le> 255 \<and> g \<le> 255 \<and> b \<le> 255 \<longrightarrow>
                 take_bit 8 fill = of_nat r \<and> take_bit 8 (drop_bit 8 fill) = of_nat g \<and>
                 take_bit 8 (drop_bit 16 fill) = of_nat b))"
proof -
  define fill where "fill = backgroundFill s"
  define s1 where "s1 = projr (erase s)"
  have e: "erase s = Inr s1" using assms by (simp add: s1_def erase_def Let_def)
  have f1: "imageMatrix s1 = Some (replicate (length m) 0)"
    "pixelData s1 = Some (replicate (length pd) fill)"
    using assms
    by (simp_all add: s1_def erase_def Let_def fill_def backgroundFill_def bg32_def)
  have p: "prepareCanvasForOutput s1 = Inr s1"
    using f1 by (simp add: prepareCanvasForOutput_def updatePixelDataFromMatrix_def pixelLoop_zero)
  have t: "\<not> solidBg (settings s) \<longrightarrow> fill = 0" by (simp add: fill_def backgroundFill_def)
  have o: "solidBg (settings s) \<longrightarrow>
      fill = push_bit 24 255
             OR push_bit 16 (case cb (bgRGB s) of None \<Rightarrow> 0 | Some b \<Rightarrow> of_nat b)
             OR push_bit 8 (case cg (bgRGB s) of None \<Rightarrow> 0 | Some g \<Rightarrow> of_nat g)
             OR (case cr (bgRGB s) of None \<Rightarrow> 0 | Some r \<Rightarrow> of_nat r)"
    by (simp add: fill_def backgroundFill_def bg32_def pack32_def toInt32_def)
  have a: "solidBg (settings s) \<longrightarrow> drop_bit 24 fill = 255"
    by (simp add: fill_def backgroundFill_def bg32_def alpha_opaque)
  have b: "take_bit 8 fill = of_nat r \<and> take_bit 8 (drop_bit 8 fill) = of_nat g \<and>
           take_bit 8 (drop_bit 16 fill) = of_nat b"
    if "solidBg (settings s)" and "bgRGB s = \<lparr>cr = Some r, cg = Some g, cb = Some b\<rparr>"
      and "r \<le> 255" and "g \<le> 255" and "b \<le> 255" for r g b
  proof -
    have "fill = push_bit 24 255 OR push_bit 16 (of_nat b) OR push_bit 8 (of_nat g) OR of_nat r"
      using o that(1,2) by simp
    then show ?thesis
      using packed_bytes [OF byte_word [OF that(5)] byte_word [OF that(4)] byte_word [OF that(3)]]
      by simp
  qed
  show ?thesis
    using e p f1 t o a b by blast
qed

theorem erase_then_render_flat_witness:
  "\<exists>s1 s2. erase paintedState = Inr s1 \<and> prepareCanvasForOutput s1 = Inr s2 \<and>
     imageMatrix s2 = Some (replicate 16 0) \<and>
     pixelData s2 = Some (replicate 16 4283839506)"
proof -
  have h: "ctx paintedState" "imageMatrix paintedState = Some ((replicate 16 0)[5 := 7])"
    "pixelData paintedState = Some (replicate 16 4278190080)"
    by (simp_all add: paintedState_def busyState_def squareState_def)
  have b: "solidBg (settings paintedState)"
    "bgRGB paintedState = \<lparr>cr = Some 18, cg = Some 52, cb = Some 86\<rparr>"
    by (simp_all add: paintedState_def busyState_def squareState_def cfg4_def)
  from erase_then_render_flat [OF h] obtain s1 s2 fill where r: "erase paintedState = Inr s1"
    "prepareCanvasForOutput s1 = Inr s2"
    "imageMatrix s2 = Some (replicate (length ((replicate 16 (0::nat))[5 := 7])) 0)"
    "pixelData s2 = Some (replicate (length (replicate 16 (4278190080 :: 32 word))) fill)"
    "solidBg (settings paintedState) \<longrightarrow>
       fill = push_bit 24 255
              OR push_bit 16 (case cb (bgRGB paintedState) of None \<Rightarrow> 0 | Some b \<Rightarrow> of_nat b)
              OR push_bit 8 (case cg (bgRGB paintedState) of None \<Rightarrow> 0 | Some g \<Rightarrow> of_nat g)
              OR (case cr (bgRGB paintedState) of None \<Rightarrow> 0 | Some r \<Rightarrow> of_nat r)"
    by blast
  have "fill = 4283839506" using r(5) b by simp
  then show ?thesis using r(1-4) by auto
qed

subsection \<open>The walk never fails on a built geometry\<close>

lemma randomIndex_less:
  assumes "0 \<le> u" and "u < 1" and "0 < n"
  shows "randomIndex u n < n"
proof -
  have "u * real n < real n" using assms by simp
  then have "\<lfloor>u * real n\<rfloor> < int n" by (simp add: floor_less_iff)
  moreover have "0 \<le> \<lfloor>u * real n\<rfloor>" using assms by simp
  ultimately show ?thesis by (simp add: randomIndex_def nat_less_iff)
qed

lemma atBack_in_set: "atBack xs k = Some x \<Longrightarrow> x \<in> set xs"
  by (auto simp: atBack_def split: if_splits)

lemma set_pushHistory: "set (pushHistory prev c) \<subseteq> insert c (set prev)"
  by (cases prev) (auto simp: pushHistory_def Let_def)

lemma chooseIndex_total:
  assumes "unitDraws rnd" and "walkReady s"
  shows "\<exists>c. chooseIndex rnd s = Inr c \<and> c < length (vertices s)"
proof -
  let ?n = "length (vertices s)"
  let ?u = "rnd (drawn s)"
  have u: "0 \<le> ?u" "?u < 1" using assms(1) by (auto simp: unitDraws_def)
  have w: "0 < ?n" "length (allowedMoves s) = ?n"
    "\<And>a. a \<in> set (allowedMoves s) \<Longrightarrow> a \<noteq> [] \<and> (\<forall>c\<in>set a. c < ?n)"
    "\<And>i. i \<in> set (prevIndex s) \<Longrightarrow> i < ?n"
    using assms(2) by (auto simp: walkReady_def Let_def list_all_iff)
  define cond where "cond = (prevIndex s = [] \<or>
            (restriction (settings s) = NoReturn \<and> length (prevIndex s) < 2) \<or>
            (restriction (settings s) \<in> {NoNeighborAfterRepeat, NoDoubleRepeat} \<and>
               (length (prevIndex s) < 2 \<or> atBack (prevIndex s) 1 \<noteq> atBack (prevIndex s) 2)))"
  show ?thesis
  proof (cases cond)
    case True
    then have "chooseIndex rnd s = Inr (randomIndex ?u ?n)"
      by (simp add: chooseIndex_def Let_def cond_def)
    then show ?thesis using randomIndex_less [OF u w(1)] by simp
  next
    case False
    define k where "k = (if restriction (settings s) = NoReturn then 2 else 1 :: nat)"
    have "1 \<le> k \<and> k \<le> length (prevIndex s)"
      using False by (cases "prevIndex s") (auto simp: cond_def k_def Suc_le_eq)
    then obtain i where i: "atBack (prevIndex s) k = Some i" by (simp add: atBack_def)
    then have "i < ?n" using w(4) atBack_in_set by metis
    then have il: "i < length (allowedMoves s)" using w(2) by simp
    define a where "a = allowedMoves s ! i"
    have am: "a \<in> set (allowedMoves s)" using il by (simp add: a_def)
    then have a: "a \<noteq> []" "\<And>c. c \<in> set a \<Longrightarrow> c < ?n" using w(3) by auto
    have r: "randomIndex ?u (length a) < length a" using randomIndex_less [OF u] a(1) by simp
    have e: "chooseIndex rnd s =
        (case atBack (prevIndex s) k of
           None \<Rightarrow> Inl TypeError
         | Some i \<Rightarrow>
             (case nthOpt (allowedMoves s) i of
                None \<Rightarrow> Inl TypeError
              | Some allowed \<Rightarrow>
                  (case nthOpt allowed (randomIndex ?u (length allowed)) of
                     None \<Rightarrow> Inl TypeError
                   | Some c \<Rightarrow> Inr c)))"
      unfolding chooseIndex_def Let_def k_def
      by (rule if_not_P) (rule False [unfolded cond_def])
    have "chooseIndex rnd s = Inr (a ! randomIndex ?u (length a))"
      using i il r by (simp add: e nthOpt_def a_def)
    moreover have "a ! randomIndex ?u (length a) < ?n" using r a(2) by simp
    ultimately show ?thesis by simp
  qed
qed

lemma updateCurrentPoint_total:
  assumes "unitDraws rnd" and "walkReady s"
  shows "\<exists>s'. updateCurrentPoint rnd s = Inr s' \<and> walkReady s'"
proof -
  obtain c where c: "chooseIndex rnd s = Inr c" "c < length (vertices s)"
    using chooseIndex_total [OF assms] by blast
  define s' where "s' = projr (updateCurrentPoint rnd s)"
  have e: "updateCurrentPoint rnd s = Inr s'"
    using c by (simp add: s'_def updateCurrentPoint_def Let_def)
  have f: "vertices s' = vertices s" "allowedMoves s' = allowedMoves s"
    "prevIndex s' = pushHistory (prevIndex s) c"
    using c by (simp_all add: s'_def updateCurrentPoint_def Let_def)
  have "list_all (\<lambda>i. i < length (vertices s)) (pushHistory (prevIndex s) c)"
    using assms(2) c(2) set_pushHistory [of "prevIndex s" c]
    by (auto simp: walkReady_def Let_def list_all_iff)
  then have "walkReady s'" using assms(2) by (simp add: walkReady_def Let_def f)
  then show ?thesis using e by blast
qed

lemma burnInLoop_total:
  "unitDraws rnd \<Longrightarrow> walkReady s \<Longrightarrow>
   \<exists>s'. burnInLoop rnd n s = Inr s' \<and> walkReady s' \<and> sameEngine s s' \<and>
        imageMatrix s' = imageMatrix s \<and> pixelData s' = pixelData s \<and>
        maxValue s' = maxValue s \<and> drawn s' = drawn s + n"
proof (induction n arbitrary: s)
  case 0
  then show ?case by (simp add: sameEngine_def)
next
  case (Suc n)
  obtain s1 where s1: "updateCurrentPoint rnd s = Inr s1" "walkReady s1"
    using updateCurrentPoint_total [OF Suc.prems] by blast
  note f = updateCurrentPoint_fields [OF s1(1)]
  obtain s' where s': "burnInLoop rnd n s1 = Inr s'" "walkReady s'" "sameEngine s1 s'"
    "imageMatrix s' = imageMatrix s1" "pixelData s' = pixelData s1"
    "maxValue s' = maxValue s1" "drawn s' = drawn s1 + n"
    using Suc.IH [OF Suc.prems(1) s1(2)] by blast
  show ?case
    using s1(1) s' f by (simp add: sameEngine_def)
qed

lemma restrictionTable_ready:
  assumes "2 \<le> sides st"
  shows "list_all (\<lambda>a. a \<noteq> [] \<and> list_all (\<lambda>c. c < vertexCount st) a) (restrictionTable st)"
proof -
  have "2 \<le> nat (sides st)" using assms by linarith
  then have n: "2 \<le> vertexCount st" by (simp add: vertexCount_def)
  have "allowedFrom st (vertexCount st) i \<noteq> [] \<and>
        list_all (\<lambda>c. c < vertexCount st) (allowedFrom st (vertexCount st) i)"
    if "i < vertexCount st" for i
    using allowedFrom_nonempty [OF that n assms] set_allowedFrom_subset [of st "vertexCount st" i]
    by (auto simp: list_all_iff)
  then show ?thesis by (simp add: restrictionTable_def list_all_iff)
qed

lemma getRandomPointInShape_total:
  assumes "unitDraws rnd" and "mainVertices s \<noteq> []"
  shows "\<exists>p. getRandomPointInShape rnd s = Inr p"
proof -
  have "randomIndex (rnd (drawn s)) (length (mainVertices s)) < length (mainVertices s)"
    using assms by (intro randomIndex_less) (auto simp: unitDraws_def)
  then show ?thesis by (simp add: getRandomPointInShape_def Let_def)
qed

lemma preDraw_result:
  assumes "unitDraws rnd" and "2 \<le> sides (settings s)"
    and "list_all (\<lambda>i. i < vertexCount (settings s)) (prevIndex s)"
  shows "\<exists>s'. preDraw rnd s = Inr s' \<and> walkReady s' \<and> settings s' = settings s \<and>
           vertices s' = buildVertices (settings s) (radius s) (center s) \<and>
           mainVertices s' = mainPolygon (settings s) (radius s) (center s) \<and>
           cosAngles s' = map cos (rotationAngles (settings s)) \<and>
           sinAngles s' = map sin (rotationAngles (settings s)) \<and>
           allowedMoves s' = restrictionTable (settings s) \<and>
           imageMatrix s' = imageMatrix s \<and> pixelData s' = pixelData s \<and>
           maxValue s' = maxValue s \<and> ctx s' = ctx s \<and>
           offscreenCanvas s' = offscreenCanvas s \<and> fgRGB s' = fgRGB s \<and>
           bgRGB s' = bgRGB s \<and> center s' = center s \<and> radius s' = radius s \<and>
           isRunning s' = isRunning s \<and> drawn s' = drawn s + 3 + DEFAULT_BURN_IN_COUNT"
proof -
  let ?st = "settings s"
  define s1 where "s1 = s\<lparr>vertices := buildVertices ?st (radius s) (center s),
                 cosAngles := map cos (rotationAngles ?st),
                 sinAngles := map sin (rotationAngles ?st),
                 mainVertices := mainPolygon ?st (radius s) (center s)\<rparr>"
  define s2 where "s2 = buildRestrictions s1"
  have t: "allowedMoves s2 = restrictionTable ?st"
    by (simp add: s2_def s1_def buildRestrictions_def restrictionTable_def length_buildVertices)
  have mv: "mainVertices s2 \<noteq> []"
    using assms(2) by (simp add: s2_def s1_def buildRestrictions_def mainPolygon_def)
  obtain p where p: "getRandomPointInShape rnd s2 = Inr p"
    using getRandomPointInShape_total [OF assms(1) mv] by blast
  define s3 where "s3 = s2\<lparr>currentPoint := p, drawn := drawn s2 + 3\<rparr>"
  have f3: "vertices s3 = buildVertices ?st (radius s) (center s)" "settings s3 = ?st"
    "allowedMoves s3 = restrictionTable ?st" "prevIndex s3 = prevIndex s"
    "mainVertices s3 = mainPolygon ?st (radius s) (center s)"
    "cosAngles s3 = map cos (rotationAngles ?st)" "sinAngles s3 = map sin (rotationAngles ?st)"
    "imageMatrix s3 = imageMatrix s" "pixelData s3 = pixelData s" "maxValue s3 = maxValue s"
    "ctx s3 = ctx s" "offscreenCanvas s3 = offscreenCanvas s" "fgRGB s3 = fgRGB s"
    "bgRGB s3 = bgRGB s" "center s3 = center s" "radius s3 = radius s"
    "isRunning s3 = isRunning s" "drawn s3 = drawn s + 3"
    using t by (simp_all add: s3_def s2_def s1_def buildRestrictions_def)
  have "2 \<le> nat (sides ?st)" using assms(2) by linarith
  then have n: "2 \<le> vertexCount ?st" by (simp add: vertexCount_def)
  have w: "walkReady s3"
    using n restrictionTable_ready [OF assms(2)] assms(3)
    by (simp add: walkReady_def Let_def f3 length_buildVertices restrictionTable_def)
  obtain s' where s': "burnInLoop rnd DEFAULT_BURN_IN_COUNT s3 = Inr s'" "walkReady s'"
    "sameEngine s3 s'" "imageMatrix s' = imageMatrix s3" "pixelData s' = pixelData s3"
    "maxValue s' = maxValue s3" "drawn s' = drawn s3 + DEFAULT_BURN_IN_COUNT"
    using burnInLoop_total [OF assms(1) w] by blast
  have "preDraw rnd s = Inr s'"
    using p s'(1)
    by (simp add: preDraw_def Let_def burnIn_def s1_def [symmetric] s2_def [symmetric]
        s3_def [symmetric])
  then show ?thesis
    using s' f3 by (simp add: sameEngine_def)
qed

lemma setup_worker_result:
  assumes "unitDraws rnd" and "offscreenCanvas s \<noteq> None" and "2 \<le> sides ns"
    and "list_all (\<lambda>i. i < vertexCount ns) (prevIndex s)"
  shows "\<exists>s'. setup_worker rnd ns s = Inr s' \<and> walkReady s' \<and> settings s' = ns \<and>
           center s' = \<lparr>px = real (canvasSize ns) / 2, py = real (canvasSize ns) / 2\<rparr> \<and>
           radius s' = real (canvasSize ns) / 2 - padding ns \<and>
           vertices s' = buildVertices ns (radius s') (center s') \<and>
           mainVertices s' = mainPolygon ns (radius s') (center s') \<and>
           cosAngles s' = map cos (rotationAngles ns) \<and>
           sinAngles s' = map sin (rotationAngles ns) \<and>
           allowedMoves s' = restrictionTable ns \<and>
           fgRGB s' = colorToRGB (fgColor ns) \<and> bgRGB s' = colorToRGB (bgColor ns) \<and>
           imageMatrix s' = Some (replicate (canvasSize ns ^ 2) 0) \<and>
           (\<exists>pd. pixelData s' = Some pd \<and> length pd = canvasSize ns ^ 2) \<and>
           (ctx s \<longrightarrow> prevIndex s' = [] \<and> maxValue s' = 1) \<and>
           ctx s' = ctx s \<and> isRunning s' = isRunning s \<and>
           offscreenCanvas s' = Some (canvasSize ns) \<and>
           drawn s' = drawn s + 3 + DEFAULT_BURN_IN_COUNT"
proof -
  obtain w where w: "offscreenCanvas s = Some w" using assms(2) by auto
  define half where "half = real (canvasSize ns) / 2"
  define s3 where "s3 = updateColors (s\<lparr>settings := ns,
       center := \<lparr>px = half, py = half\<rparr>, radius := half - padding ns,
       offscreenCanvas := Some (canvasSize ns),
       imageMatrix := Some (replicate (canvasSize ns ^ 2) 0),
       pixelData := Some (replicate (canvasSize ns ^ 2) 0)\<rparr>)"
  have c: "s\<lparr>offscreenCanvas := Some (canvasSize ns)\<rparr> = s" if "w = canvasSize ns"
    using w that by simp
  have e: "setup_worker rnd ns s = (case preDraw rnd s3 of Inl e \<Rightarrow> Inl e | Inr s4 \<Rightarrow> erase s4)"
  proof (cases "w = canvasSize ns")
    case True
    have "s3 = updateColors (s\<lparr>offscreenCanvas := Some (canvasSize ns)\<rparr>\<lparr>settings := ns,
       center := \<lparr>px = half, py = half\<rparr>, radius := half - padding ns,
       imageMatrix := Some (replicate (canvasSize ns ^ 2) 0),
       pixelData := Some (replicate (canvasSize ns ^ 2) 0)\<rparr>)"
      by (simp add: s3_def updateColors_def)
    then show ?thesis
      unfolding c [OF True] using w True
      by (simp add: setup_worker_def Let_def half_def)
  next
    case False
    then show ?thesis
      using w by (simp add: setup_worker_def Let_def s3_def half_def updateColors_def)
  qed
  have f3: "settings s3 = ns" "prevIndex s3 = prevIndex s" "center s3 = \<lparr>px = half, py = half\<rparr>"
    "radius s3 = half - padding ns" "imageMatrix s3 = Some (replicate (canvasSize ns ^ 2) 0)"
    "pixelData s3 = Some (replicate (canvasSize ns ^ 2) 0)" "ctx s3 = ctx s"
    "offscreenCanvas s3 = Some (canvasSize ns)" "fgRGB s3 = colorToRGB (fgColor ns)"
    "bgRGB s3 = colorToRGB (bgColor ns)" "isRunning s3 = isRunning s" "drawn s3 = drawn s"
    "maxValue s3 = maxValue s"
    by (simp_all add: s3_def updateColors_def)
  have h2: "2 \<le> sides (settings s3)" and h3: "list_all (\<lambda>i. i < vertexCount (settings s3)) (prevIndex s3)"
    using assms(3,4) by (simp_all add: f3)
  obtain s4 where s4: "preDraw rnd s3 = Inr s4" "walkReady s4" "settings s4 = settings s3"
           "vertices s4 = buildVertices (settings s3) (radius s3) (center s3)"
           "mainVertices s4 = mainPolygon (settings s3) (radius s3) (center s3)"
           "cosAngles s4 = map cos (rotationAngles (settings s3))"
           "sinAngles s4 = map sin (rotationAngles (settings s3))"
           "allowedMoves s4 = restrictionTable (settings s3)"
           "imageMatrix s4 = imageMatrix s3" "pixelData s4 = pixelData s3"
           "maxValue s4 = maxValue s3" "ctx s4 = ctx s3"
           "offscreenCanvas s4 = offscreenCanvas s3" "fgRGB s4 = fgRGB s3"
           "bgRGB s4 = bgRGB s3" "center s4 = center s3" "radius s4 = radius s3"
           "isRunning s4 = isRunning s3" "drawn s4 = drawn s3 + 3 + DEFAULT_BURN_IN_COUNT"
    using preDraw_result [OF assms(1) h2 h3] by blast
  define s' where "s' = projr (erase s4)"
  have er: "erase s4 = Inr s'"
    using s4 by (simp add: s'_def erase_def Let_def f3)
  have wr: "walkReady s'"
    using s4(2) by (simp add: s'_def erase_def Let_def f3 s4 walkReady_def)
  have fs: "settings s' = ns" "center s' = \<lparr>px = half, py = half\<rparr>"
    "radius s' = half - padding ns" "vertices s' = vertices s4" "mainVertices s' = mainVertices s4"
    "cosAngles s' = cosAngles s4" "sinAngles s' = sinAngles s4" "allowedMoves s' = allowedMoves s4"
    "fgRGB s' = colorToRGB (fgColor ns)" "bgRGB s' = colorToRGB (bgColor ns)"
    "imageMatrix s' = Some (replicate (canvasSize ns ^ 2) 0)"
    "\<exists>pd. pixelData s' = Some pd \<and> length pd = canvasSize ns ^ 2"
    "ctx s \<longrightarrow> prevIndex s' = [] \<and> maxValue s' = 1" "ctx s' = ctx s" "isRunning s' = isRunning s"
    "offscreenCanvas s' = Some (canvasSize ns)" "drawn s' = drawn s + 3 + DEFAULT_BURN_IN_COUNT"
    by (simp_all add: s'_def erase_def Let_def f3 s4)
  show ?thesis
    using e s4(1) er wr fs s4 f3 by (simp add: half_def)
qed

subsection \<open>setup validates nothing\<close>

lemma digitRuns_none:
  "list_all (\<lambda>c. \<not> isDigit c) col \<Longrightarrow> digitRuns col [] = []"
  by (induction col) auto

lemma colorToRGB_fallback:
  assumes "list_all (\<lambda>c. \<not> isDigit c) col" and "col = [] \<or> hd col \<noteq> CHR ''#''"
  shows "colorToRGB col = \<lparr>cr = Some 0, cg = Some 0, cb = Some 0\<rparr>"
  using assms by (auto simp: colorToRGB_def digitRuns_none)

lemma updateSetting_plain:
  "\<not> isColorKey u \<Longrightarrow> \<not> isRenderKey u \<Longrightarrow>
   updateSetting u s = Inr (s\<lparr>settings := assignSetting u (settings s)\<rparr>)"
  by (simp add: updateSetting_def Let_def)

text \<open>
  C2, amended: \<open>setup\<close> and the \<open>updateSetting\<close> handler validate nothing.  For every
  configuration with at least two sides (two sides, fewer than three, included), whatever
  its radius (a non-positive one included), its colour strings and its gamma exponent,
  \<open>setup\<close> succeeds once a canvas has been received and the move history left by the
  previous run names vertices of the new geometry; the new settings replace the previous
  ones and the radius is \<open>canvasSize / 2 - padding\<close>.  A colour string that neither
  starts with \<open>#\<close> nor holds a decimal digit is read as black.  \<open>updateSetting\<close>
  stores any number of sides and any padding.
\<close>

theorem setup_installs_configuration:
  assumes "unitDraws rnd" and "offscreenCanvas s \<noteq> None" and "2 \<le> sides ns"
    and "list_all (\<lambda>i. i < vertexCount ns) (prevIndex s)"
  shows "(\<exists>s'. setup_worker rnd ns s = Inr s' \<and> settings s' = ns \<and>
            radius s' = real (canvasSize ns) / 2 - padding ns \<and>
            fgRGB s' = colorToRGB (fgColor ns) \<and> bgRGB s' = colorToRGB (bgColor ns)) \<and>
         (list_all (\<lambda>c. \<not> isDigit c) (fgColor ns) \<and>
            (fgColor ns = [] \<or> hd (fgColor ns) \<noteq> CHR ''#'') \<longrightarrow>
            colorToRGB (fgColor ns) = \<lparr>cr = Some 0, cg = Some 0, cb = Some 0\<rparr>) \<and>
         updateSetting (SetSides v) s = Inr (s\<lparr>settings := (settings s)\<lparr>sides := v\<rparr>\<rparr>) \<and>
         updateSetting (SetPadding p) s = Inr (s\<lparr>settings := (settings s)\<lparr>padding := p\<rparr>\<rparr>)"
proof -
  from setup_worker_result [OF assms]
  have a: "\<exists>s'. setup_worker rnd ns s = Inr s' \<and> settings s' = ns \<and>
            radius s' = real (canvasSize ns) / 2 - padding ns \<and>
            fgRGB s' = colorToRGB (fgColor ns) \<and> bgRGB s' = colorToRGB (bgColor ns)"
    by blast
  show ?thesis
    using a colorToRGB_fallback [of "fgColor ns"] by (simp add: updateSetting_plain)
qed

lemma unitDraws_half: "unitDraws (\<lambda>k. 1 / 2)"
  by (simp add: unitDraws_def)

lemma freshState_ok:
  "offscreenCanvas freshState \<noteq> None" "ctx freshState" "prevIndex freshState = []"
  by (simp_all add: freshState_def)

text \<open>
  C2, as the specification states it: a configuration with fewer than three sides, a
  non-positive radius, a malformed colour or a non-positive gamma is rejected, and the
  previous state is kept.  \<open>degenerateCfg\<close> is invalid in all four ways; \<open>setup\<close>
  returns normally on it, installs it in place of the previous settings, and reads the
  malformed colour as black.
\<close>

theorem setup_rejects_counterexample:
  "sides degenerateCfg < 3 \<and>
   real (canvasSize degenerateCfg) / 2 - padding degenerateCfg \<le> 0 \<and>
   gammaExponent degenerateCfg \<le> 0 \<and>
   (\<exists>s'. setup_worker (\<lambda>k. 1 / 2) degenerateCfg freshState = Inr s' \<and>
      settings s' = degenerateCfg \<and> settings s' \<noteq> settings freshState \<and>
      fgRGB s' = \<lparr>cr = Some 0, cg = Some 0, cb = Some 0\<rparr>)"
proof -
  have h: "2 \<le> sides degenerateCfg"
    "list_all (\<lambda>i. i < vertexCount degenerateCfg) (prevIndex freshState)"
    by (simp_all add: degenerateCfg_def cfg3_def freshState_def)
  have col: "colorToRGB (fgColor degenerateCfg) = \<lparr>cr = Some 0, cg = Some 0, cb = Some 0\<rparr>"
    by (rule colorToRGB_fallback) (simp_all add: degenerateCfg_def cfg3_def isDigit_def charCode_def)
  have ne: "degenerateCfg \<noteq> settings freshState"
    by (simp add: degenerateCfg_def cfg3_def freshState_def)
  from setup_worker_result [OF unitDraws_half freshState_ok(1) h] col ne
  have "\<exists>s'. setup_worker (\<lambda>k. 1 / 2) degenerateCfg freshState = Inr s' \<and>
      settings s' = degenerateCfg \<and> settings s' \<noteq> settings freshState \<and>
      fgRGB s' = \<lparr>cr = Some 0, cg = Some 0, cb = Some 0\<rparr>"
    by auto
  then show ?thesis by (simp add: degenerateCfg_def cfg3_def)
qed

theorem setup_installs_configuration_witness:
  "\<exists>s'. setup_worker (\<lambda>k. 1 / 2) degenerateCfg freshState = Inr s' \<and>
      settings s' = degenerateCfg \<and> radius s' = - 3"
proof -
  have h: "2 \<le> sides degenerateCfg"
    "list_all (\<lambda>i. i < vertexCount degenerateCfg) (prevIndex freshState)"
    by (simp_all add: degenerateCfg_def cfg3_def freshState_def)
  have r: "real (canvasSize degenerateCfg) / 2 - padding degenerateCfg = - 3"
    by (simp add: degenerateCfg_def cfg3_def)
  from setup_installs_configuration [OF unitDraws_half freshState_ok(1) h] show ?thesis unfolding r by blast
qed

subsection \<open>The move history after setup\<close>

lemma pushHistory_nonempty: "pushHistory prev c \<noteq> []"
  by (cases prev; cases "tl prev") (auto simp: pushHistory_def Let_def)

lemma updateCurrentPoint_history:
  "updateCurrentPoint rnd s = Inr s' \<Longrightarrow> prevIndex s' \<noteq> []"
  by (auto simp: updateCurrentPoint_def Let_def pushHistory_nonempty split: sum.splits if_splits)

lemma burnInLoop_history:
  "burnInLoop rnd n s = Inr s' \<Longrightarrow> prevIndex s \<noteq> [] \<or> 0 < n \<Longrightarrow> prevIndex s' \<noteq> []"
proof (induction n arbitrary: s)
  case 0
  then show ?case by simp
next
  case (Suc n)
  then obtain s1 where s1: "updateCurrentPoint rnd s = Inr s1" "burnInLoop rnd n s1 = Inr s'"
    by (auto split: sum.splits)
  from Suc.IH [OF s1(2)] updateCurrentPoint_history [OF s1(1)] show ?case by simp
qed

lemma preDraw_history: "preDraw rnd s = Inr s' \<Longrightarrow> prevIndex s' \<noteq> []"
  by (auto simp: preDraw_def Let_def burnIn_def DEFAULT_BURN_IN_COUNT_def
      split: sum.splits dest!: burnInLoop_history)

lemma chooseIndex_empty_history:
  "prevIndex s = [] \<Longrightarrow>
   chooseIndex rnd s = Inr (randomIndex (rnd (drawn s)) (length (vertices s)))"
  by (simp add: chooseIndex_def Let_def)

text \<open>
  When \<open>setup\<close> returns: \<open>preDraw\<close> always returns with a non-empty move history
  (the burn-in steps pushed onto it), and \<open>setup\<close>, which runs \<open>preDraw\<close> and then
  \<open>erase\<close>, returns with an empty one, the drawing context being present; the three
  draws of the start point and the 300 draws of the burn-in have been consumed.
  Whatever the restriction rule, the next step chooses
  \<open>Math.floor(Math.random() * vertices.length)\<close>, an index among all the vertices.
\<close>

lemma setup_history_empty:
  assumes "unitDraws rnd" and "offscreenCanvas s \<noteq> None" and "ctx s" and "2 \<le> sides ns"
    and "list_all (\<lambda>i. i < vertexCount ns) (prevIndex s)"
  shows "\<exists>s'. setup_worker rnd ns s = Inr s' \<and> prevIndex s' = [] \<and>
           drawn s' = drawn s + 3 + DEFAULT_BURN_IN_COUNT \<and>
           length (vertices s') = vertexCount ns \<and>
           (\<forall>rnd'. chooseIndex rnd' s' =
                     Inr (randomIndex (rnd' (drawn s')) (length (vertices s'))) \<and>
                   (unitDraws rnd' \<longrightarrow>
                      randomIndex (rnd' (drawn s')) (length (vertices s')) < length (vertices s'))) \<and>
           (\<forall>s3 s4. preDraw rnd s3 = Inr s4 \<longrightarrow> prevIndex s4 \<noteq> [])"
proof -
  obtain s' where s': "setup_worker rnd ns s = Inr s'" "walkReady s'"
    "vertices s' = buildVertices ns (radius s') (center s')"
    "ctx s \<longrightarrow> prevIndex s' = [] \<and> maxValue s' = 1"
    "drawn s' = drawn s + 3 + DEFAULT_BURN_IN_COUNT"
    using setup_worker_result [OF assms(1,2,4,5)] by blast
  have p: "prevIndex s' = []" using s'(4) assms(3) by simp
  have l: "length (vertices s') = vertexCount ns"
    by (simp add: s'(3) length_buildVertices)
  have pos: "0 < length (vertices s')" using s'(2) by (simp add: walkReady_def Let_def)
  have r: "randomIndex (rnd' (drawn s')) (length (vertices s')) < length (vertices s')"
    if "unitDraws rnd'" for rnd'
    using that pos by (intro randomIndex_less) (auto simp: unitDraws_def)
  show ?thesis
    using s'(1,5) p l r chooseIndex_empty_history [OF p] preDraw_history by blast
qed

lemma setup_history_empty_example:
  "\<exists>s'. setup_worker (\<lambda>k. 1 / 2) (cfg3\<lparr>restriction := NoReturn\<rparr>) freshState = Inr s' \<and>
      prevIndex s' = [] \<and> drawn s' = 303 \<and>
      chooseIndex (\<lambda>k. 1 / 2) s' = Inr 1"
proof -
  have h: "2 \<le> sides (cfg3\<lparr>restriction := NoReturn\<rparr>)"
    "list_all (\<lambda>i. i < vertexCount (cfg3\<lparr>restriction := NoReturn\<rparr>)) (prevIndex freshState)"
    by (simp_all add: cfg3_def freshState_def)
  have v: "vertexCount (cfg3\<lparr>restriction := NoReturn\<rparr>) = 3"
    by (simp add: vertexCount_def cfg3_def)
  have d: "drawn freshState = 0" by (simp add: freshState_def)
  have r: "randomIndex (1 / 2) 3 = 1" by (simp add: randomIndex_def)
  from setup_history_empty [OF unitDraws_half freshState_ok(1,2) h]
  show ?thesis unfolding v d DEFAULT_BURN_IN_COUNT_def
    by (auto simp: r)
qed

subsection \<open>Runs under the rule no-return\<close>

lemma plotPoint_fields:
  assumes "plotPoint pt s = Inr s'"
  shows "sameEngine s s'" "prevIndex s' = prevIndex s" "imageMatrix s' \<noteq> None"
    "drawn s' = drawn s"
  using assms
  by (auto simp: plotPoint_def Let_def sameEngine_def split: option.splits if_splits)

lemma plotPoint_total: "imageMatrix s \<noteq> None \<Longrightarrow> \<exists>s'. plotPoint pt s = Inr s'"
  by (auto simp: plotPoint_def Let_def split: option.splits)

lemma sameEngine_trans: "sameEngine a b \<Longrightarrow> sameEngine b c \<Longrightarrow> sameEngine a c"
  by (simp add: sameEngine_def)

lemma plotPoints_total:
  "imageMatrix s \<noteq> None \<Longrightarrow>
   \<exists>s'. plotPoints ps s = Inr s' \<and> sameEngine s s' \<and> prevIndex s' = prevIndex s \<and>
        imageMatrix s' \<noteq> None \<and> drawn s' = drawn s"
proof (induction ps arbitrary: s)
  case Nil
  then show ?case by (simp add: sameEngine_def)
next
  case (Cons p ps)
  obtain s1 where s1: "plotPoint p s = Inr s1" using plotPoint_total [OF Cons.prems] by blast
  note f = plotPoint_fields [OF s1]
  obtain s' where s': "plotPoints ps s1 = Inr s'" "sameEngine s1 s'"
    "prevIndex s' = prevIndex s1" "imageMatrix s' \<noteq> None" "drawn s' = drawn s1"
    using Cons.IH [OF f(3)] by blast
  show ?case using s1 s' f sameEngine_trans [OF f(1) s'(2)] by simp
qed

lemma walkReady_cong:
  "walkReady s \<Longrightarrow> sameEngine s s' \<Longrightarrow> prevIndex s' = prevIndex s \<Longrightarrow> walkReady s'"
  by (simp add: walkReady_def sameEngine_def)

lemma plotPoints_fields:
  "plotPoints ps s = Inr s' \<Longrightarrow> sameEngine s s' \<and> prevIndex s' = prevIndex s"
proof (induction ps arbitrary: s)
  case Nil
  then show ?case by (simp add: sameEngine_def)
next
  case (Cons p ps)
  then obtain s1 where s1: "plotPoint p s = Inr s1" "plotPoints ps s1 = Inr s'"
    by (auto split: sum.splits)
  from Cons.IH [OF s1(2)] plotPoint_fields(1,2) [OF s1(1)] show ?case
    by (auto intro: sameEngine_trans)
qed

lemma updateMatrix_step:
  assumes "updateMatrix rnd s = Inr s'"
  shows "\<exists>c. chooseIndex rnd s = Inr c \<and> prevIndex s' = pushHistory (prevIndex s) c \<and>
           sameEngine s s'"
proof -
  obtain s1 where s1: "updateCurrentPoint rnd s = Inr s1"
    and r: "plotPoints (symmetryPoints s1) s1 = Inr s'"
    using assms by (auto simp: updateMatrix_def split: sum.splits)
  obtain c where c: "chooseIndex rnd s = Inr c" "prevIndex s1 = pushHistory (prevIndex s) c"
    using s1 by (auto simp: updateCurrentPoint_def Let_def split: sum.splits if_splits)
  note f = updateCurrentPoint_fields [OF s1]
  have e1: "sameEngine s s1" by (simp add: sameEngine_def f)
  from plotPoints_fields [OF r] c sameEngine_trans [OF e1] show ?thesis by auto
qed

lemma updateMatrix_total:
  assumes "unitDraws rnd" and "walkReady s" and "imageMatrix s \<noteq> None"
  shows "\<exists>s'. updateMatrix rnd s = Inr s' \<and> walkReady s' \<and> imageMatrix s' \<noteq> None"
proof -
  obtain s1 where s1: "updateCurrentPoint rnd s = Inr s1" "walkReady s1"
    using updateCurrentPoint_total [OF assms(1,2)] by blast
  have m: "imageMatrix s1 \<noteq> None" using assms(3) updateCurrentPoint_fields(1) [OF s1(1)] by simp
  obtain s' where s': "plotPoints (symmetryPoints s1) s1 = Inr s'" "sameEngine s1 s'"
    "prevIndex s' = prevIndex s1" "imageMatrix s' \<noteq> None"
    using plotPoints_total [OF m] by blast
  show ?thesis
    using s1 s' walkReady_cong [OF s1(2) s'(2,3)] by (simp add: updateMatrix_def)
qed

lemma chosenTrace_total:
  "unitDraws rnd \<Longrightarrow> walkReady s \<Longrightarrow> imageMatrix s \<noteq> None \<Longrightarrow>
   \<exists>tr. chosenTrace rnd n s = Inr tr \<and> length tr = n"
proof (induction n arbitrary: s)
  case 0
  then show ?case by simp
next
  case (Suc n)
  obtain s1 where s1: "updateMatrix rnd s = Inr s1" "walkReady s1" "imageMatrix s1 \<noteq> None"
    using updateMatrix_total [OF Suc.prems] by blast
  obtain tr where "chosenTrace rnd n s1 = Inr tr" "length tr = n"
    using Suc.IH [OF Suc.prems(1) s1(2,3)] by blast
  then show ?case using s1(1) by simp
qed

lemma last_pushHistory: "last (pushHistory prev c) = c"
  by (cases prev) (auto simp: pushHistory_def Let_def)

lemma lastN_snoc: "lastN 2 (xs @ [c]) = lastN 1 xs @ [c]"
  by (cases xs rule: rev_cases) (simp_all add: lastN_def)

lemma lastN_pushHistory: "lastN 2 (pushHistory prev c) = lastN 1 prev @ [c]"
proof (cases "length prev < 10")
  case True
  then show ?thesis by (simp add: pushHistory_def Let_def lastN_snoc)
next
  case False
  then obtain a rest where p: "prev = a # rest" by (cases prev) auto
  with False have l: "9 \<le> length rest" by simp
  then have "lastN 1 (a # rest) = lastN 1 rest" by (cases rest) (simp_all add: lastN_def)
  moreover have "pushHistory prev c = rest @ [c]"
    using False p by (simp add: pushHistory_def Let_def)
  ultimately show ?thesis by (simp add: p lastN_snoc)
qed

lemma lastN_cases:
  "length xs < 2 \<and> lastN 2 xs = xs \<and> lastN 1 xs = xs \<and> length xs \<le> 1 \<or>
   2 \<le> length xs \<and> lastN 2 xs = [xs ! (length xs - 2), last xs] \<and> lastN 1 xs = [last xs]"
proof (cases xs rule: rev_cases)
  case Nil
  then show ?thesis by (simp add: lastN_def)
next
  case (snoc ys b)
  show ?thesis
  proof (cases ys rule: rev_cases)
    case Nil
    then show ?thesis by (simp add: snoc lastN_def)
  next
    case (snoc zs a)
    then show ?thesis using \<open>xs = ys @ [b]\<close> by (simp add: lastN_def nth_append)
  qed
qed

lemma twoBackAt_nth:
  "twoBackAt P d xs \<Longrightarrow> k + 2 < length xs \<Longrightarrow> P (d + k) (xs ! k) (xs ! (k + 2))"
proof (induction P d xs arbitrary: k rule: twoBackAt.induct)
  case (1 P d a b c xs)
  show ?case
  proof (cases k)
    case 0
    then show ?thesis using "1.prems" by simp
  next
    case (Suc j)
    then show ?thesis using "1.IH" [of j] "1.prems" by simp
  qed
qed simp_all

lemma twoBackAt_short: "length xs < 3 \<Longrightarrow> twoBackAt P d xs"
  by (induction P d xs rule: twoBackAt.induct) auto

lemma plotPoints_drawn: "plotPoints ps s = Inr s' \<Longrightarrow> drawn s' = drawn s"
proof (induction ps arbitrary: s)
  case Nil
  then show ?case by simp
next
  case (Cons p ps)
  then obtain s1 where s1: "plotPoint p s = Inr s1" "plotPoints ps s1 = Inr s'"
    by (auto split: sum.splits)
  from Cons.IH [OF s1(2)] plotPoint_fields(4) [OF s1(1)] show ?case by simp
qed

lemma updateMatrix_drawn:
  assumes "updateMatrix rnd s = Inr s'"
  shows "drawn s' = drawn s + 1"
proof -
  obtain s1 where s1: "updateCurrentPoint rnd s = Inr s1"
    and r: "plotPoints (symmetryPoints s1) s1 = Inr s'"
    using assms by (auto simp: updateMatrix_def split: sum.splits)
  from plotPoints_drawn [OF r] updateCurrentPoint_fields(8) [OF s1] show ?thesis by simp
qed


lemma chooseIndex_noReturn_draw:
  assumes "chooseIndex rnd s = Inr c" and "restriction (settings s) = NoReturn"
    and "2 \<le> length (prevIndex s)"
  shows "drawnFrom rnd (allowedMoves s) (drawn s) (prevIndex s ! (length (prevIndex s) - 2)) c"
proof -
  have ne: "prevIndex s \<noteq> []" using assms(3) by auto
  have "\<not> length (prevIndex s) < 2" using assms(3) by simp
  then show ?thesis
    using assms ne
    by (auto simp: chooseIndex_def Let_def atBack_def nthOpt_def drawnFrom_def
        split: if_splits option.splits)
qed

lemma chosenTrace_draws:
  "chosenTrace rnd n s = Inr tr \<Longrightarrow> restriction (settings s) = NoReturn \<Longrightarrow>
   allowedMoves s = T \<Longrightarrow>
   twoBackAt (drawnFrom rnd T) (drawn s + 2 - length (lastN 2 (prevIndex s)))
     (lastN 2 (prevIndex s) @ tr)"
proof (induction n arbitrary: s tr)
  case 0
  then have "tr = []" by simp
  moreover have "length (lastN 2 (prevIndex s)) < 3" by (simp add: lastN_def)
  ultimately show ?case by (simp add: twoBackAt_short)
next
  case (Suc n)
  obtain s1 tr1 where s1: "updateMatrix rnd s = Inr s1" and t1: "chosenTrace rnd n s1 = Inr tr1"
    and tr: "tr = last (prevIndex s1) # tr1"
    using Suc.prems(1) by (auto split: sum.splits)
  obtain c where c: "chooseIndex rnd s = Inr c" "prevIndex s1 = pushHistory (prevIndex s) c"
    "sameEngine s s1"
    using updateMatrix_step [OF s1] by blast
  have d1: "drawn s1 = drawn s + 1" by (rule updateMatrix_drawn [OF s1])
  have r1: "restriction (settings s1) = NoReturn" "allowedMoves s1 = T"
    using c(3) Suc.prems(2,3) by (simp_all add: sameEngine_def)
  have ih: "twoBackAt (drawnFrom rnd T) (drawn s + 3 - length (lastN 1 (prevIndex s) @ [c]))
               (lastN 1 (prevIndex s) @ c # tr1)"
    using Suc.IH [OF t1 r1] by (simp add: c(2) lastN_pushHistory d1)
  have tr': "tr = c # tr1" by (simp add: tr c(2) last_pushHistory)
  from lastN_cases [of "prevIndex s"] show ?case
  proof
    assume a: "length (prevIndex s) < 2 \<and> lastN 2 (prevIndex s) = prevIndex s \<and>
      lastN 1 (prevIndex s) = prevIndex s \<and> length (prevIndex s) \<le> 1"
    then have "drawn s + 3 - length (prevIndex s @ [c]) = drawn s + 2 - length (prevIndex s)"
      by simp
    then show ?thesis using ih a by (simp add: tr')
  next
    assume a: "2 \<le> length (prevIndex s) \<and>
      lastN 2 (prevIndex s) = [prevIndex s ! (length (prevIndex s) - 2), last (prevIndex s)] \<and>
      lastN 1 (prevIndex s) = [last (prevIndex s)]"
    then have "drawnFrom rnd T (drawn s) (prevIndex s ! (length (prevIndex s) - 2)) c"
      using chooseIndex_noReturn_draw [OF c(1) Suc.prems(2)] Suc.prems(3) by simp
    then show ?thesis using ih a by (simp add: tr')
  qed
qed

lemma randomIndex_interval:
  assumes "0 \<le> u"
  shows "randomIndex u len = i \<longleftrightarrow> real i \<le> u * real len \<and> u * real len < real i + 1"
proof -
  have nn: "0 \<le> u * real len" using assms by simp
  then have "0 \<le> \<lfloor>u * real len\<rfloor>" by simp
  then have "randomIndex u len = i \<longleftrightarrow> \<lfloor>u * real len\<rfloor> = int i"
    by (auto simp: randomIndex_def)
  also have "\<dots> \<longleftrightarrow> real i \<le> u * real len \<and> u * real len < real i + 1"
    by (auto simp: floor_eq_iff)
  finally show ?thesis .
qed

lemma restrictionTable_entry:
  assumes "restriction st = NoReturn" and "a < length (restrictionTable st)"
  shows "distinct (restrictionTable st ! a)"
    and "set (restrictionTable st ! a) = {j. j < vertexCount st \<and> j \<noteq> a}"
  using assms by (auto simp: restrictionTable_def allowedFrom_def Let_def)

text \<open>
  C5, amended: in every run that follows \<open>setup\<close> with the rule \<open>no-return\<close> (the
  restriction table having been built for that rule), the run of any number \<open>n\<close> of
  steps completes, and at every step for which the step two before exists the chosen
  index is \<open>allowed[Math.floor(u * allowed.length)]\<close>, where \<open>u\<close> is the draw of the
  step and \<open>allowed\<close> the table entry of the index chosen two steps before: a list that
  holds every vertex index but that one, each once.  So the two indices differ, and
  since \<open>Math.floor(u * len) = i\<close> exactly for \<open>i \<le> u * len < i + 1\<close>, every legal
  index is chosen on an interval of draws of the same length.
\<close>

theorem no_return_run:
  assumes "unitDraws rnd" and "offscreenCanvas s0 \<noteq> None" and "2 \<le> sides ns"
    and "restriction ns = NoReturn"
    and "list_all (\<lambda>i. i < vertexCount ns) (prevIndex s0)"
  shows "\<exists>s tr. setup_worker rnd ns s0 = Inr s \<and> chosenTrace rnd n s = Inr tr \<and>
           length tr = n \<and>
           (\<forall>k. k + 2 < n \<longrightarrow>
              (\<exists>allowed. allowed = allowedMoves s ! (tr ! k) \<and>
                 distinct allowed \<and>
                 set allowed = {j. j < length (vertices s) \<and> j \<noteq> tr ! k} \<and>
                 randomIndex (rnd (drawn s + k + 2)) (length allowed) < length allowed \<and>
                 tr ! (k + 2) = allowed ! randomIndex (rnd (drawn s + k + 2)) (length allowed) \<and>
                 tr ! (k + 2) \<noteq> tr ! k)) \<and>
           (\<forall>u len i. 0 \<le> u \<longrightarrow>
              (randomIndex u len = i \<longleftrightarrow> real i \<le> u * real len \<and> u * real len < real i + 1))"
proof -
  obtain s where s: "setup_worker rnd ns s0 = Inr s" "walkReady s" "settings s = ns"
    "allowedMoves s = restrictionTable ns" "imageMatrix s = Some (replicate (canvasSize ns ^ 2) 0)"
    "vertices s = buildVertices ns (radius s) (center s)"
    using setup_worker_result [OF assms(1,2,3,5)] by blast
  have m: "imageMatrix s \<noteq> None" using s(5) by simp
  have lv: "length (vertices s) = vertexCount ns" by (simp add: s(6) length_buildVertices)
  obtain tr where tr: "chosenTrace rnd n s = Inr tr" "length tr = n"
    using chosenTrace_total [OF assms(1) s(2) m] by blast
  let ?T = "restrictionTable ns"
  let ?h = "lastN 2 (prevIndex s)"
  have hl: "length ?h \<le> 2" by (simp add: lastN_def)
  have tb: "twoBackAt (drawnFrom rnd ?T) (drawn s + 2 - length ?h) (?h @ tr)"
    using chosenTrace_draws [OF tr(1) _ s(4)] assms(4) s(3) by simp
  have step: "\<exists>allowed. allowed = ?T ! (tr ! k) \<and> distinct allowed \<and>
                 set allowed = {j. j < length (vertices s) \<and> j \<noteq> tr ! k} \<and>
                 randomIndex (rnd (drawn s + k + 2)) (length allowed) < length allowed \<and>
                 tr ! (k + 2) = allowed ! randomIndex (rnd (drawn s + k + 2)) (length allowed) \<and>
                 tr ! (k + 2) \<noteq> tr ! k" if k: "k + 2 < n" for k
  proof -
    have "length ?h + k + 2 < length (?h @ tr)" using k tr(2) by simp
    from twoBackAt_nth [OF tb, of "length ?h + k"] this
    have "drawnFrom rnd ?T (drawn s + 2 - length ?h + (length ?h + k)) (tr ! k) (tr ! (k + 2))"
      by (simp add: nth_append add.assoc)
    moreover have "drawn s + 2 - length ?h + (length ?h + k) = drawn s + k + 2"
      using hl by simp
    ultimately have p: "drawnFrom rnd ?T (drawn s + k + 2) (tr ! k) (tr ! (k + 2))" by simp
    then have a: "tr ! k < length ?T" by (simp add: drawnFrom_def)
    note e = restrictionTable_entry [OF assms(4) a]
    have "tr ! (k + 2) \<in> set (?T ! (tr ! k))"
      using p by (simp add: drawnFrom_def)
    then have "tr ! (k + 2) \<noteq> tr ! k" using e(2) by simp
    then show ?thesis using p e by (simp add: drawnFrom_def lv)
  qed
  have A: "\<forall>k. k + 2 < n \<longrightarrow>
              (\<exists>allowed. allowed = allowedMoves s ! (tr ! k) \<and>
                 distinct allowed \<and>
                 set allowed = {j. j < length (vertices s) \<and> j \<noteq> tr ! k} \<and>
                 randomIndex (rnd (drawn s + k + 2)) (length allowed) < length allowed \<and>
                 tr ! (k + 2) = allowed ! randomIndex (rnd (drawn s + k + 2)) (length allowed) \<and>
                 tr ! (k + 2) \<noteq> tr ! k)"
    unfolding s(4) using step by blast
  have B: "\<forall>u len i. 0 \<le> u \<longrightarrow>
              (randomIndex u len = i \<longleftrightarrow> real i \<le> u * real len \<and> u * real len < real i + 1)"
    using randomIndex_interval by blast
  show ?thesis
    using s(1) tr A B by blast
qed

text \<open>
  C5, as the specification states it, for every run with the rule \<open>no-return\<close>: the
  \<open>updateSetting\<close> handler stores the rule without building the table again, and the
  run that follows picks from the table of the rule \<open>none\<close>.  On the square engine,
  with every draw 3 / 8, the three steps choose the vertex 1 each time: the third step
  returns to the index of the first.
\<close>

theorem no_return_stale_table_counterexample:
  "\<exists>s'. updateSetting (SetRestriction NoReturn) squareState = Inr s' \<and>
      restriction (settings s') = NoReturn \<and>
      chosenTrace (\<lambda>k. 3 / 8) (Suc (Suc (Suc 0))) s' = Inr [1, 1, 1]"
  by (simp add: updateSetting_def eval_defs)

theorem no_return_run_witness:
  "\<exists>s tr. setup_worker (\<lambda>k. 1 / 2) (cfg3\<lparr>restriction := NoReturn\<rparr>) freshState = Inr s \<and>
     chosenTrace (\<lambda>k. 1 / 2) 5 s = Inr tr \<and> length tr = 5 \<and>
     tr ! 2 \<noteq> tr ! 0 \<and> tr ! 3 \<noteq> tr ! 1 \<and> tr ! 4 \<noteq> tr ! 2"
proof -
  have h: "2 \<le> sides (cfg3\<lparr>restriction := NoReturn\<rparr>)"
    "restriction (cfg3\<lparr>restriction := NoReturn\<rparr>) = NoReturn"
    "list_all (\<lambda>i. i < vertexCount (cfg3\<lparr>restriction := NoReturn\<rparr>)) (prevIndex freshState)"
    by (simp_all add: cfg3_def freshState_def)
  from no_return_run [OF unitDraws_half freshState_ok(1) h, of 5]
  obtain s tr where r: "setup_worker (\<lambda>k. 1 / 2) (cfg3\<lparr>restriction := NoReturn\<rparr>) freshState = Inr s"
    "chosenTrace (\<lambda>k. 1 / 2) 5 s = Inr tr" "length tr = 5"
    "\<forall>k. k + 2 < 5 \<longrightarrow> tr ! (k + 2) \<noteq> tr ! k"
    by blast
  from r(4) [rule_format, of 0] r(4) [rule_format, of 1] r(4) [rule_format, of 2]
  have "tr ! 2 \<noteq> tr ! 0 \<and> tr ! 3 \<noteq> tr ! 1 \<and> tr ! 4 \<noteq> tr ! 2"
    by (simp add: numeral_3_eq_3 numeral_Bit0 eval_nat_numeral)
  then show ?thesis using r(1,2,3) by blast
qed


subsection \<open>A reset onto a smaller geometry\<close>

lemma chooseIndex_stale:
  assumes "restriction (settings s) \<in> {RNone, NoRepeat, NoNeighbor}" and "prevIndex s \<noteq> []"
    and "length (allowedMoves s) \<le> last (prevIndex s)"
  shows "chooseIndex rnd s = Inl TypeError"
proof -
  have "atBack (prevIndex s) 1 = Some (last (prevIndex s))"
    using assms(2) by (cases "prevIndex s" rule: rev_cases) (simp_all add: atBack_def)
  then show ?thesis
    using assms by (auto simp: chooseIndex_def Let_def nthOpt_def)
qed

lemma burnIn_stale:
  assumes "restriction (settings s) \<in> {RNone, NoRepeat, NoNeighbor}" and "prevIndex s \<noteq> []"
    and "length (allowedMoves s) \<le> last (prevIndex s)"
  shows "burnIn rnd s = Inl TypeError"
proof -
  have u: "updateCurrentPoint rnd s = Inl TypeError"
    by (simp add: updateCurrentPoint_def chooseIndex_stale [OF assms])
  have "burnInLoop rnd (Suc 299) s = Inl TypeError"
    by (subst burnInLoop.simps(2)) (simp add: u)
  moreover have "DEFAULT_BURN_IN_COUNT = Suc 299" by (simp add: DEFAULT_BURN_IN_COUNT_def)
  ultimately show ?thesis by (simp only: burnIn_def)
qed

lemma preDraw_stale:
  assumes "unitDraws rnd" and "1 \<le> sides (settings s)"
    and "restriction (settings s) \<in> {RNone, NoRepeat, NoNeighbor}" and "prevIndex s \<noteq> []"
    and "vertexCount (settings s) \<le> last (prevIndex s)"
  shows "preDraw rnd s = Inl TypeError"
proof -
  let ?st = "settings s"
  define s1 where "s1 = s\<lparr>vertices := buildVertices ?st (radius s) (center s),
                 cosAngles := map cos (rotationAngles ?st),
                 sinAngles := map sin (rotationAngles ?st),
                 mainVertices := mainPolygon ?st (radius s) (center s)\<rparr>"
  define s2 where "s2 = buildRestrictions s1"
  have mv: "mainVertices s2 \<noteq> []"
    using assms(2) by (simp add: s2_def s1_def buildRestrictions_def mainPolygon_def)
  obtain p where p: "getRandomPointInShape rnd s2 = Inr p"
    using getRandomPointInShape_total [OF assms(1) mv] by blast
  define s3 where "s3 = s2\<lparr>currentPoint := p, drawn := drawn s2 + 3\<rparr>"
  have f3: "settings s3 = ?st" "prevIndex s3 = prevIndex s"
    "length (allowedMoves s3) = vertexCount ?st"
    by (simp_all add: s3_def s2_def s1_def buildRestrictions_def length_buildVertices)
  have "burnIn rnd s3 = Inl TypeError"
    by (rule burnIn_stale) (use assms f3 in simp_all)
  then show ?thesis
    using p
    by (simp add: preDraw_def Let_def s1_def [symmetric] s2_def [symmetric] s3_def [symmetric])
qed

lemma setup_worker_stale:
  assumes "unitDraws rnd" and "offscreenCanvas s \<noteq> None" and "1 \<le> sides ns"
    and "restriction ns \<in> {RNone, NoRepeat, NoNeighbor}" and "prevIndex s \<noteq> []"
    and "vertexCount ns \<le> last (prevIndex s)"
  shows "setup_worker rnd ns s = Inl TypeError"
proof -
  obtain w where w: "offscreenCanvas s = Some w" using assms(2) by auto
  define half where "half = real (canvasSize ns) / 2"
  define s1 where "s1 = s\<lparr>settings := ns, center := \<lparr>px = half, py = half\<rparr>,
       radius := half - padding ns\<rparr>"
  define s2 where "s2 = (if w \<noteq> canvasSize ns
       then s1\<lparr>offscreenCanvas := Some (canvasSize ns)\<rparr> else s1)"
  define s3 where "s3 = updateColors (s2\<lparr>imageMatrix := Some (replicate (canvasSize ns ^ 2) 0),
       pixelData := Some (replicate (canvasSize ns ^ 2) 0)\<rparr>)"
  have e: "setup_worker rnd ns s = (case preDraw rnd s3 of Inl e \<Rightarrow> Inl e | Inr s4 \<Rightarrow> erase s4)"
    using w by (simp add: setup_worker_def Let_def s3_def s2_def s1_def half_def)
  have f3: "settings s3 = ns" "prevIndex s3 = prevIndex s"
    by (simp_all add: s3_def s2_def s1_def updateColors_def)
  have "preDraw rnd s3 = Inl TypeError"
    by (rule preDraw_stale) (use assms f3 in simp_all)
  then show ?thesis by (simp add: e)
qed

lemma unitDraws_ninetenths: "unitDraws (\<lambda>k. 9 / 10)"
  by (simp add: unitDraws_def)

text \<open>
  C9: the move history is not empty after every reset.  \<open>setup\<close> runs the burn-in of
  \<open>preDraw\<close> on the history of the previous run and calls \<open>erase\<close> only afterwards.
  With every draw 9 / 10: the engine is initialised as a pentagon, and its history is
  empty; its first step chooses the vertex 4, and the history is \<open>[4]\<close>; the reset to a
  triangle then builds a restriction table of three entries, the first burn-in step
  reads \<open>allowedMoves[4]\<close>, which is \<open>undefined\<close>, and \<open>setup\<close> ends in a
  \<open>TypeError\<close> before \<open>erase\<close> is reached.
\<close>

theorem reset_after_shrink_fails:
  "\<exists>s1 s2. setup_worker (\<lambda>k. 9 / 10) cfg5 freshState = Inr s1 \<and> prevIndex s1 = [] \<and>
     updateMatrix (\<lambda>k. 9 / 10) s1 = Inr s2 \<and> prevIndex s2 = [4] \<and>
     handleReset (\<lambda>k. 9 / 10) cfg3 s2 = Inl TypeError"
proof -
  let ?rnd = "\<lambda>k::nat. 9 / 10 :: real"
  have h: "2 \<le> sides cfg5" "list_all (\<lambda>i. i < vertexCount cfg5) (prevIndex freshState)"
    by (simp_all add: cfg5_def cfg3_def freshState_def)
  obtain s1 where s1: "setup_worker ?rnd cfg5 freshState = Inr s1" "walkReady s1"
    "vertices s1 = buildVertices cfg5 (radius s1) (center s1)"
    "imageMatrix s1 = Some (replicate (canvasSize cfg5 ^ 2) 0)"
    "ctx freshState \<longrightarrow> prevIndex s1 = [] \<and> maxValue s1 = 1"
    "isRunning s1 = isRunning freshState" "offscreenCanvas s1 = Some (canvasSize cfg5)"
    using setup_worker_result [OF unitDraws_ninetenths freshState_ok(1) h] by blast
  have p1: "prevIndex s1 = []" using s1(5) freshState_ok(2) by simp
  have m: "imageMatrix s1 \<noteq> None" using s1(4) by simp
  obtain s2 where s2: "updateMatrix ?rnd s1 = Inr s2"
    using updateMatrix_total [OF unitDraws_ninetenths s1(2) m] by blast
  obtain c where c: "chooseIndex ?rnd s1 = Inr c" "prevIndex s2 = pushHistory (prevIndex s1) c"
    "sameEngine s1 s2"
    using updateMatrix_step [OF s2] by blast
  have "length (vertices s1) = 5"
    by (simp add: s1(3) length_buildVertices vertexCount_def cfg5_def cfg3_def)
  then have "c = 4"
    using c(1) chooseIndex_empty_history [OF p1, of ?rnd] by (simp add: randomIndex_def)
  then have p2: "prevIndex s2 = [4]" by (simp add: c(2) p1 pushHistory_def)
  have r: "\<not> isRunning s2" "offscreenCanvas s2 \<noteq> None"
    using c(3) s1(6,7) by (simp_all add: sameEngine_def freshState_def)
  have "setup_worker ?rnd cfg3 s2 = Inl TypeError"
    by (rule setup_worker_stale [OF unitDraws_ninetenths r(2)])
      (simp_all add: p2 cfg3_def vertexCount_def)
  then have "handleReset ?rnd cfg3 s2 = Inl TypeError"
    using r(1) by (simp add: handleReset_def stop_def handleInit_def)
  then show ?thesis using s1(1) p1 s2 p2 by blast
qed

subsection \<open>Live settings changes\<close>

lemma length_pixelLoop: "length (pixelLoop s l m i pd) = length pd"
  by (induction m arbitrary: i pd) auto

lemma pixelLoop_nth:
  "j < length pd \<Longrightarrow>
   pixelLoop s l m i pd ! j =
     (if i \<le> j \<and> j - i < length m \<and> 0 < m ! (j - i)
      then calculatePixelValue s (normalizeValue s (real (m ! (j - i))) l) else pd ! j)"
proof (induction m arbitrary: i pd)
  case Nil
  then show ?case by simp
next
  case (Cons v vs)
  let ?pd = "if v > 0 then pd[i := calculatePixelValue s (normalizeValue s (real v) l)] else pd"
  have l: "j < length ?pd" using Cons.prems by simp
  show ?case
  proof (cases "j = i")
    case True
    then show ?thesis using Cons.IH [OF l, of "i + 1"] Cons.prems by simp
  next
    case False
    show ?thesis
    proof (cases "j < i")
      case True
      then show ?thesis using Cons.IH [OF l, of "i + 1"] Cons.prems by simp
    next
      case ge: False
      with False have gt: "i < j" by simp
      then obtain d where d: "j - i = Suc d" "j - (i + 1) = d"
        by (metis Suc_diff_Suc add.commute diff_diff_left plus_1_eq_Suc)
      show ?thesis using Cons.IH [OF l, of "i + 1"] Cons.prems gt d by simp
    qed
  qed
qed

lemma pixel_fields:
  "calculatePixelValue (s\<lparr>pixelData := x\<rparr>) = calculatePixelValue s"
  "normalizeValue (s\<lparr>pixelData := x\<rparr>) = normalizeValue s"
  by (auto simp: calculatePixelValue_def normalizeValue_def fun_eq_iff)

lemma renderFrame_result:
  assumes "imageMatrix s = Some m" and "pixelData s = Some pd"
  shows "\<exists>s'. renderFrame s = Inr s' \<and> s' = s\<lparr>pixelData := pixelData s'\<rparr> \<and>
           (\<exists>pd'. pixelData s' = Some pd' \<and> length pd' = length pd \<and>
              (\<forall>j<length pd. pd' ! j =
                 (if j < length m \<and> 0 < m ! j then normalizedPixel s' (m ! j) else pd ! j)))"
  using assms
  by (simp add: renderFrame_def prepareCanvasForOutput_def updatePixelDataFromMatrix_def
      length_pixelLoop pixelLoop_nth normalizedPixel_def pixel_fields)

lemma updateSetting_color:
  assumes "imageMatrix s = Some m" and "pixelData s = Some pd" and "isColorKey u"
  shows "\<exists>s' pd'. updateSetting u s = Inr s' \<and> settings s' = assignSetting u (settings s) \<and>
           geometryKept s s' \<and> imageMatrix s' = Some m \<and> maxValue s' = maxValue s \<and>
           isRunning s' = isRunning s \<and>
           fgRGB s' = colorToRGB (fgColor (settings s')) \<and>
           bgRGB s' = colorToRGB (bgColor (settings s')) \<and>
           pixelData s' = Some pd' \<and> length pd' = length pd \<and>
           (\<forall>j<length pd. pd' ! j =
              (if (\<not> isRunning s \<or> liveRendering (settings s')) \<and> j < length m \<and> 0 < m ! j
               then normalizedPixel s' (m ! j) else backgroundFill s'))"
proof -
  define s2 where "s2 = updateColors (s\<lparr>settings := assignSetting u (settings s)\<rparr>)"
  define s3 where "s3 = s2\<lparr>pixelData := Some (replicate (length pd) (backgroundFill s2))\<rparr>"
  have f3: "settings s3 = assignSetting u (settings s)" "geometryKept s s3"
    "imageMatrix s3 = Some m" "maxValue s3 = maxValue s" "isRunning s3 = isRunning s"
    "fgRGB s3 = colorToRGB (fgColor (settings s3))" "bgRGB s3 = colorToRGB (bgColor (settings s3))"
    "pixelData s3 = Some (replicate (length pd) (backgroundFill s2))"
    "backgroundFill s3 = backgroundFill s2"
    using assms(1) by (simp_all add: s3_def s2_def updateColors_def geometryKept_def
        backgroundFill_def bg32_def)
  have e: "updateSetting u s =
      (if \<not> isRunning s3 \<or> liveRendering (settings s3) then renderFrame s3 else Inr s3)"
    using assms(2,3)
    by (simp add: updateSetting_def Let_def s2_def s3_def updateColors_def backgroundFill_def)
  show ?thesis
  proof (cases "\<not> isRunning s3 \<or> liveRendering (settings s3)")
    case False
    then show ?thesis using e f3 by auto
  next
    case True
    obtain s' pd' where r: "renderFrame s3 = Inr s'" "s' = s3\<lparr>pixelData := pixelData s'\<rparr>"
      "pixelData s' = Some pd'" "length pd' = length (replicate (length pd) (backgroundFill s2))"
      "\<forall>j<length (replicate (length pd) (backgroundFill s2)).
          pd' ! j = (if j < length m \<and> 0 < m ! j then normalizedPixel s' (m ! j)
                     else replicate (length pd) (backgroundFill s2) ! j)"
      using renderFrame_result [OF f3(3) f3(8)] by blast
    have k: "settings s' = settings s3" "geometryKept s3 s'" "imageMatrix s' = imageMatrix s3"
      "maxValue s' = maxValue s3" "isRunning s' = isRunning s3" "fgRGB s' = fgRGB s3"
      "bgRGB s' = bgRGB s3" "backgroundFill s' = backgroundFill s3"
      by (subst r(2), simp add: geometryKept_def backgroundFill_def bg32_def)+
    have g: "geometryKept s s'" using f3(2) k(2) by (simp add: geometryKept_def)
    show ?thesis
      using e True r(1,3,4,5) k g f3 by auto
  qed
qed

lemma updateSetting_render:
  assumes "imageMatrix s = Some m" and "pixelData s = Some pd" and "isRenderKey u"
  shows "\<exists>s' pd'. updateSetting u s = Inr s' \<and> settings s' = assignSetting u (settings s) \<and>
           geometryKept s s' \<and> imageMatrix s' = Some m \<and> maxValue s' = maxValue s \<and>
           isRunning s' = isRunning s \<and> fgRGB s' = fgRGB s \<and> bgRGB s' = bgRGB s \<and>
           pixelData s' = Some pd' \<and> length pd' = length pd \<and>
           (\<forall>j<length pd. pd' ! j =
              (if (\<not> isRunning s \<or> liveRendering (settings s')) \<and> j < length m \<and> 0 < m ! j
               then normalizedPixel s' (m ! j) else pd ! j))"
proof -
  define s1 where "s1 = s\<lparr>settings := assignSetting u (settings s)\<rparr>"
  have nc: "\<not> isColorKey u" using assms(3) by (cases u) auto
  have f1: "settings s1 = assignSetting u (settings s)" "geometryKept s s1"
    "imageMatrix s1 = Some m" "maxValue s1 = maxValue s" "isRunning s1 = isRunning s"
    "fgRGB s1 = fgRGB s" "bgRGB s1 = bgRGB s" "pixelData s1 = Some pd"
    using assms(1,2) by (simp_all add: s1_def geometryKept_def)
  have e: "updateSetting u s =
      (if \<not> isRunning s1 \<or> liveRendering (settings s1) then renderFrame s1 else Inr s1)"
    using assms(3) nc by (simp add: updateSetting_def Let_def s1_def)
  show ?thesis
  proof (cases "\<not> isRunning s1 \<or> liveRendering (settings s1)")
    case False
    then show ?thesis using e f1 by auto
  next
    case True
    obtain s' pd' where r: "renderFrame s1 = Inr s'" "s' = s1\<lparr>pixelData := pixelData s'\<rparr>"
      "pixelData s' = Some pd'" "length pd' = length pd"
      "\<forall>j<length pd. pd' ! j = (if j < length m \<and> 0 < m ! j then normalizedPixel s' (m ! j)
                     else pd ! j)"
      using renderFrame_result [OF f1(3) f1(8)] by blast
    have k: "settings s' = settings s1" "geometryKept s1 s'" "imageMatrix s' = imageMatrix s1"
      "maxValue s' = maxValue s1" "isRunning s' = isRunning s1" "fgRGB s' = fgRGB s1"
      "bgRGB s' = bgRGB s1"
      by (subst r(2), simp add: geometryKept_def)+
    have g: "geometryKept s s'" using f1(2) k(2) by (simp add: geometryKept_def)
    show ?thesis
      using e True r(1,3,4,5) k g f1 by auto
  qed
qed

text \<open>
  C3, amended.  For an \<open>updateSetting\<close> message on an engine whose buffers are
  allocated: a change of \<open>fgColor\<close>, \<open>bgColor\<close> or \<open>solidBg\<close> stores the value,
  parses both colours again and refills the pixel buffer with the background fill; a
  change of \<open>gammaExponent\<close>, \<open>drawCircle\<close> or \<open>drawPolygon\<close>, and
  \<open>liveRendering\<close> switched on, stores the value; and in both cases, when the engine
  is not running or \<open>liveRendering\<close> is on, every cell with a hit is normalized again
  from the unchanged density matrix, the other cells keeping the fill (the first case) or
  their colour (the second); the geometry, the restriction table, the walk and the
  density matrix are untouched.  The full rebuild is what \<open>setup\<close> does, on an
  \<open>init\<close> or \<open>reset\<close> message: it returns with the vertices, the rotation tables and
  the restriction table of the new settings, the burn-in draws consumed.
\<close>

theorem reconfigure_effects:
  assumes "imageMatrix s = Some m" and "pixelData s = Some pd"
  shows "(isColorKey u \<longrightarrow>
            (\<exists>s' pd'. updateSetting u s = Inr s' \<and>
               settings s' = assignSetting u (settings s) \<and>
               geometryKept s s' \<and> imageMatrix s' = Some m \<and> maxValue s' = maxValue s \<and>
               fgRGB s' = colorToRGB (fgColor (settings s')) \<and>
               bgRGB s' = colorToRGB (bgColor (settings s')) \<and>
               pixelData s' = Some pd' \<and> length pd' = length pd \<and>
               (\<forall>j<length pd. pd' ! j =
                  (if (\<not> isRunning s \<or> liveRendering (settings s')) \<and> j < length m \<and> 0 < m ! j
                   then normalizedPixel s' (m ! j) else backgroundFill s')))) \<and>
         (isRenderKey u \<longrightarrow>
            (\<exists>s' pd'. updateSetting u s = Inr s' \<and>
               settings s' = assignSetting u (settings s) \<and>
               geometryKept s s' \<and> imageMatrix s' = Some m \<and> maxValue s' = maxValue s \<and>
               fgRGB s' = fgRGB s \<and> bgRGB s' = bgRGB s \<and>
               pixelData s' = Some pd' \<and> length pd' = length pd \<and>
               (\<forall>j<length pd. pd' ! j =
                  (if (\<not> isRunning s \<or> liveRendering (settings s')) \<and> j < length m \<and> 0 < m ! j
                   then normalizedPixel s' (m ! j) else pd ! j)))) \<and>
         (unitDraws rnd \<and> offscreenCanvas s \<noteq> None \<and> 2 \<le> sides ns \<and>
          list_all (\<lambda>i. i < vertexCount ns) (prevIndex s) \<longrightarrow>
            (\<exists>s'. setup_worker rnd ns s = Inr s' \<and> settings s' = ns \<and>
               radius s' = real (canvasSize ns) / 2 - padding ns \<and>
               vertices s' = buildVertices ns (radius s') (center s') \<and>
               cosAngles s' = map cos (rotationAngles ns) \<and>
               sinAngles s' = map sin (rotationAngles ns) \<and>
               allowedMoves s' = restrictionTable ns \<and>
               drawn s' = drawn s + 3 + DEFAULT_BURN_IN_COUNT))"
proof (intro conjI impI)
  assume "isColorKey u"
  from updateSetting_color [OF assms this]
  show "\<exists>s' pd'. updateSetting u s = Inr s' \<and>
               settings s' = assignSetting u (settings s) \<and>
               geometryKept s s' \<and> imageMatrix s' = Some m \<and> maxValue s' = maxValue s \<and>
               fgRGB s' = colorToRGB (fgColor (settings s')) \<and>
               bgRGB s' = colorToRGB (bgColor (settings s')) \<and>
               pixelData s' = Some pd' \<and> length pd' = length pd \<and>
               (\<forall>j<length pd. pd' ! j =
                  (if (\<not> isRunning s \<or> liveRendering (settings s')) \<and> j < length m \<and> 0 < m ! j
                   then normalizedPixel s' (m ! j) else backgroundFill s'))"
    by blast
next
  assume "isRenderKey u"
  from updateSetting_render [OF assms this]
  show "\<exists>s' pd'. updateSetting u s = Inr s' \<and>
               settings s' = assignSetting u (settings s) \<and>
               geometryKept s s' \<and> imageMatrix s' = Some m \<and> maxValue s' = maxValue s \<and>
               fgRGB s' = fgRGB s \<and> bgRGB s' = bgRGB s \<and>
               pixelData s' = Some pd' \<and> length pd' = length pd \<and>
               (\<forall>j<length pd. pd' ! j =
                  (if (\<not> isRunning s \<or> liveRendering (settings s')) \<and> j < length m \<and> 0 < m ! j
                   then normalizedPixel s' (m ! j) else pd ! j))"
    by blast
next
  assume a: "unitDraws rnd \<and> offscreenCanvas s \<noteq> None \<and> 2 \<le> sides ns \<and>
          list_all (\<lambda>i. i < vertexCount ns) (prevIndex s)"
  then have h: "unitDraws rnd" "offscreenCanvas s \<noteq> None" "2 \<le> sides ns"
    "list_all (\<lambda>i. i < vertexCount ns) (prevIndex s)" by auto
  from setup_worker_result [OF h]
  show "\<exists>s'. setup_worker rnd ns s = Inr s' \<and> settings s' = ns \<and>
               radius s' = real (canvasSize ns) / 2 - padding ns \<and>
               vertices s' = buildVertices ns (radius s') (center s') \<and>
               cosAngles s' = map cos (rotationAngles ns) \<and>
               sinAngles s' = map sin (rotationAngles ns) \<and>
               allowedMoves s' = restrictionTable ns \<and>
               drawn s' = drawn s + 3 + DEFAULT_BURN_IN_COUNT"
    by blast
qed

text \<open>
  C3, as the specification states it: a change of \<open>sides\<close> triggers a geometry rebuild,
  and a change of \<open>fgColor\<close> normalizes the density data again.  The handler does
  neither here: \<open>updateSetting\<close> with \<open>sides = 5\<close> on the square engine stores 5 and
  leaves the four vertices, the four rotations and the four table entries, with no
  burn-in draw; and \<open>updateSetting\<close> with a new \<open>fgColor\<close> on the running engine
  with live rendering off leaves the pixel buffer at the background fill although a cell
  has seven hits.
\<close>

theorem updateSetting_rebuild_counterexample:
  "(\<exists>s'. updateSetting (SetSides 5) squareState = Inr s' \<and> sides (settings s') = 5 \<and>
      vertices s' = squareVertices \<and> length (cosAngles s') = 4 \<and>
      length (allowedMoves s') = 4 \<and> drawn s' = drawn squareState) \<and>
   (\<exists>s'. updateSetting (SetFgColor ''#ff0000'') runningState = Inr s' \<and>
      imageMatrix s' = Some ((replicate 16 0)[5 := 7]) \<and>
      pixelData s' = Some (replicate 16 4278190080))"
  by (simp add: updateSetting_def Let_def squareState_def runningState_def busyState_def
      cfg4_def updateColors_def bg32_def pack32_def toInt32_def colorToRGB_def parseInt16_def
      hexDigit_def charCode_def isWhite_def digitsValue_def byteOf_def)

theorem reconfigure_effects_witness:
  "(\<exists>s' pd'. updateSetting (SetSolidBg False) busyState = Inr s' \<and>
      vertices s' = squareVertices \<and> pixelData s' = Some pd' \<and> pd' ! 0 = 0) \<and>
   (\<exists>s'. updateSetting (SetDrawCircle True) busyState = Inr s' \<and>
      imageMatrix s' = Some ((replicate 16 0)[5 := 7])) \<and>
   (\<exists>s'. setup_worker (\<lambda>k. 1 / 2) cfg4 busyState = Inr s' \<and>
      allowedMoves s' = restrictionTable cfg4 \<and> drawn s' = 606)"
proof -
  have b: "imageMatrix busyState = Some ((replicate 16 0)[5 := 7])"
    "pixelData busyState = Some (replicate 16 4278190080)"
    "vertices busyState = squareVertices" "\<not> isRunning busyState" "drawn busyState = 303"
    by (simp_all add: busyState_def squareState_def)
  have h: "unitDraws (\<lambda>k. 1 / 2) \<and> offscreenCanvas busyState \<noteq> None \<and> 2 \<le> sides cfg4 \<and>
      list_all (\<lambda>i. i < vertexCount cfg4) (prevIndex busyState)"
    by (simp add: unitDraws_half busyState_def squareState_def cfg4_def vertexCount_def)
  note A = reconfigure_effects [OF b(1,2), of "SetSolidBg False" "\<lambda>k. 1 / 2" cfg4]
  note B = reconfigure_effects [OF b(1,2), of "SetDrawCircle True" "\<lambda>k. 1 / 2" cfg4]
  have ck: "isColorKey (SetSolidBg False)" and rk: "isRenderKey (SetDrawCircle True)" by simp_all
  from A [THEN conjunct1, THEN mp, OF ck] obtain s' pd' where 1: "updateSetting (SetSolidBg False) busyState = Inr s'"
    "settings s' = assignSetting (SetSolidBg False) (settings busyState)" "geometryKept busyState s'"
    "pixelData s' = Some pd'"
    "\<forall>j<length (replicate 16 (4278190080 :: 32 word)). pd' ! j =
       (if (\<not> isRunning busyState \<or> liveRendering (settings s')) \<and>
           j < length ((replicate 16 (0::nat))[5 := 7]) \<and> 0 < (replicate 16 (0::nat))[5 := 7] ! j
        then normalizedPixel s' ((replicate 16 0)[5 := 7] ! j) else backgroundFill s')"
    by blast
  have "pd' ! 0 = 0" using 1(5) [rule_format, of 0] by (simp add: backgroundFill_def 1(2))
  moreover have "vertices s' = squareVertices" using 1(3) b(3) by (simp add: geometryKept_def)
  ultimately have a: "\<exists>s' pd'. updateSetting (SetSolidBg False) busyState = Inr s' \<and>
      vertices s' = squareVertices \<and> pixelData s' = Some pd' \<and> pd' ! 0 = 0"
    using 1(1,4) by blast
  have c: "\<exists>s'. updateSetting (SetDrawCircle True) busyState = Inr s' \<and>
      imageMatrix s' = Some ((replicate 16 0)[5 := 7])"
    using B [THEN conjunct2, THEN conjunct1, THEN mp, OF rk] by blast
  have d: "\<exists>s'. setup_worker (\<lambda>k. 1 / 2) cfg4 busyState = Inr s' \<and>
      allowedMoves s' = restrictionTable cfg4 \<and> drawn s' = 606"
    using A [THEN conjunct2, THEN conjunct2, THEN mp, OF h]
    by (auto simp: b(5) DEFAULT_BURN_IN_COUNT_def)
  show ?thesis using a c d by blast
qed

end
